theory Spec2Isabelle
  imports Main "HOL-Library.Word" "HOL-Library.Multiset"
begin

unbundle bit_operations_syntax

section \<open>The buffer pool (src/buffer\_pool.cc)\<close>

subsection \<open>Data model\<close>

text \<open>
  The frame states. Only \<open>kFrameStateUnknown\<close> is named in buffer\_pool.cc; the other
  enumerators stand for the states a decoder moves a frame through afterwards.
\<close>

datatype FrameState =
  kFrameStateUnknown | kFrameStateStarted | kFrameStateParsed | kFrameStateDecoded

text \<open>
  The fields of \<open>RefCountedBuffer\<close> that buffer\_pool.cc reads or writes. The pixel
  storage \<open>yuv_buffer_\<close> is owned by an external class and kept abstract (\<open>'y\<close>);
  \<open>buffer_private_data_\<close> is the opaque pointer the storage callback hands back, kept as a
  number.
\<close>

record 'y RefCountedBuffer =
  buffer_private_data_valid :: bool
  buffer_private_data :: nat
  yuv_buffer :: 'y
  in_use :: bool
  progress_row :: int
  frame_state :: FrameState
  hdr_cll_set :: bool
  hdr_mdcv_set :: bool
  itut_t35_set :: bool

text \<open>
  The pool: the vector \<open>buffers_\<close> (a buffer is named by its position, which never
  changes because the vector only grows), and the calls made so far to the external
  \<open>release_frame_buffer_\<close> callback, oldest first, each with the private data it was given.
\<close>

record 'y BufferPool =
  buffers :: "'y RefCountedBuffer list"
  release_calls :: "nat list"

datatype fatal = AssertionFailed | InvalidPointer

text \<open>
  Modelled from the spec: the default member initialisers of \<open>RefCountedBuffer\<close>, declared in
  src/buffer\_pool.h, which is not among the sources. A freshly constructed buffer has no
  storage bound, is not in use, and has its per-frame flags at their initial values.
\<close>

definition new_RefCountedBuffer :: "'y \<Rightarrow> 'y RefCountedBuffer" where
  "new_RefCountedBuffer y =
     \<lparr> buffer_private_data_valid = False, buffer_private_data = 0, yuv_buffer = y,
       in_use = False, progress_row = -1, frame_state = kFrameStateUnknown,
       hdr_cll_set = False, hdr_mdcv_set = False, itut_t35_set = False \<rparr>"

subsection \<open>RefCountedBuffer::Realloc\<close>

text \<open>The ten arguments of \<open>Realloc\<close>, in the order of the signature.\<close>

record realloc_args =
  arg_bitdepth :: int
  arg_is_monochrome :: bool
  arg_width :: int
  arg_height :: int
  arg_subsampling_x :: int
  arg_subsampling_y :: int
  arg_left_border :: int
  arg_right_border :: int
  arg_top_border :: int
  arg_bottom_border :: int

text \<open>
  \<open>YuvBuffer::Realloc\<close> is external: it receives the arguments, the buffer's
  \<open>yuv_buffer_\<close> and a pointer to \<open>buffer_private_data_\<close>, and returns whether it
  succeeded together with whatever it left in the two. The pool's callbacks are fixed at
  construction and are part of that function. The assertion is a fatal error; the buffer is
  addressed through the pool, whose mutex is held for the whole call.
\<close>

type_synonym 'y yuv_realloc = "realloc_args \<Rightarrow> 'y \<Rightarrow> nat \<Rightarrow> bool \<times> 'y \<times> nat"

definition Realloc ::
  "'y yuv_realloc \<Rightarrow> realloc_args \<Rightarrow> nat \<Rightarrow> 'y BufferPool \<Rightarrow> fatal + (bool \<times> 'y BufferPool)" where
  "Realloc yuv_realloc args i pool =
     (if \<not> i < length (buffers pool) then Inl InvalidPointer
      else let b = buffers pool ! i in
        if buffer_private_data_valid b then Inl AssertionFailed
        else case yuv_realloc args (yuv_buffer b) (buffer_private_data b) of
          (ok, y', pd') \<Rightarrow>
            let b' = b\<lparr>yuv_buffer := y', buffer_private_data := pd'\<rparr> in
            if \<not> ok then Inr (False, pool\<lparr>buffers := (buffers pool)[i := b']\<rparr>)
            else Inr (True,
              pool\<lparr>buffers := (buffers pool)[i := b'\<lparr>buffer_private_data_valid := True\<rparr>]\<rparr>))"

subsection \<open>BufferPool::GetFreeBuffer\<close>

text \<open>The range-for loop: the position of the first buffer that is not in use.\<close>

fun first_free :: "'y RefCountedBuffer list \<Rightarrow> nat option" where
  "first_free [] = None"
| "first_free (b # bs) =
     (if \<not> in_use b then Some 0 else map_option Suc (first_free bs))"

text \<open>
  The part of \<open>GetFreeBuffer\<close> after the loop. \<open>alloc_ok\<close> says whether
  \<open>new (std::nothrow)\<close> returned a buffer, \<open>push_ok\<close> whether \<open>push_back\<close>
  succeeded, \<open>y\<close> is the storage object of a newly constructed buffer. The result is the
  handle (the buffer's position) or \<open>None\<close> for the empty pointer. A buffer that could not
  be pushed is deleted, which leaves the pool as it was.
\<close>

definition GetFreeBuffer_new ::
  "'y \<Rightarrow> bool \<Rightarrow> bool \<Rightarrow> 'y BufferPool \<Rightarrow> nat option \<times> 'y BufferPool" where
  "GetFreeBuffer_new y alloc_ok push_ok pool =
     (if \<not> alloc_ok then (None, pool)
      else let buffer = (new_RefCountedBuffer y)
             \<lparr>in_use := True, progress_row := -1, frame_state := kFrameStateUnknown\<rparr> in
        if \<not> push_ok then (None, pool)
        else (Some (length (buffers pool)), pool\<lparr>buffers := buffers pool @ [buffer]\<rparr>))"

text \<open>The whole call, when no other thread runs between the loop and the allocation.\<close>

definition GetFreeBuffer ::
  "'y \<Rightarrow> bool \<Rightarrow> bool \<Rightarrow> 'y BufferPool \<Rightarrow> nat option \<times> 'y BufferPool" where
  "GetFreeBuffer y alloc_ok push_ok pool =
     (case first_free (buffers pool) of
        Some i \<Rightarrow>
          (Some i, pool\<lparr>buffers := (buffers pool)[i := (buffers pool ! i)
             \<lparr>in_use := True, progress_row := -1, frame_state := kFrameStateUnknown,
              hdr_cll_set := False, hdr_mdcv_set := False, itut_t35_set := False\<rparr>]\<rparr>)
      | None \<Rightarrow> GetFreeBuffer_new y alloc_ok push_ok pool)"

subsection \<open>BufferPool::ReturnUnusedBuffer\<close>

definition ReturnUnusedBuffer :: "nat \<Rightarrow> 'y BufferPool \<Rightarrow> fatal + 'y BufferPool" where
  "ReturnUnusedBuffer i pool =
     (if \<not> i < length (buffers pool) then Inl InvalidPointer
      else let b = buffers pool ! i in
        if \<not> in_use b then Inl AssertionFailed
        else let b1 = b\<lparr>in_use := False\<rparr> in
          if buffer_private_data_valid b1
          then Inr \<lparr> buffers = (buffers pool)[i := b1\<lparr>buffer_private_data_valid := False\<rparr>],
                     release_calls = release_calls pool @ [buffer_private_data b1] \<rparr>
          else Inr (pool\<lparr>buffers := (buffers pool)[i := b1]\<rparr>))"

subsection \<open>Sequences of pool operations\<close>

text \<open>
  Clients hold handles. \<open>Acquire\<close> is a call of \<open>GetFreeBuffer\<close>; \<open>Bind\<close> is a call of
  \<open>Realloc\<close> on a held handle, with the external allocation function; \<open>Release\<close> is the
  handle's deleter running \<open>ReturnUnusedBuffer\<close>, which happens once, when the last holder
  lets go of a held handle. \<open>GetFreeBuffer\<close> gives up the mutex between its loop and
  \<open>push_back\<close>, so other threads' operations may come between the two: \<open>AcquireLate\<close> is
  the second half of such a call, run after the operations that came since its loop.
  \<open>live\<close> lists the handles currently held. A step that a client cannot take (binding or
  releasing a handle it does not hold) or that ends in a fatal error has no successor.
\<close>

datatype 'y pool_op =
  Acquire 'y bool bool
| AcquireLate 'y bool bool
| Bind nat realloc_args "'y yuv_realloc"
| Release nat

record 'y pool_sys =
  pool :: "'y BufferPool"
  live :: "nat list"

text \<open>The handle an operation returns to its caller, and the pool it leaves.\<close>

fun acquired :: "'y pool_op \<Rightarrow> 'y BufferPool \<Rightarrow> nat option \<times> 'y BufferPool" where
  "acquired (Acquire y alloc_ok push_ok) p = GetFreeBuffer y alloc_ok push_ok p"
| "acquired (AcquireLate y alloc_ok push_ok) p = GetFreeBuffer_new y alloc_ok push_ok p"
| "acquired (Bind i args f) p = (None, p)"
| "acquired (Release i) p = (None, p)"

fun pool_step :: "'y pool_op \<Rightarrow> 'y pool_sys \<Rightarrow> 'y pool_sys option" where
  "pool_step (Bind i args f) s =
     (if i \<notin> set (live s) then None
      else case Realloc f args i (pool s) of
        Inl e \<Rightarrow> None
      | Inr (ok, p') \<Rightarrow> Some \<lparr> pool = p', live = live s \<rparr>)"
| "pool_step (Release i) s =
     (if i \<notin> set (live s) then None
      else case ReturnUnusedBuffer i (pool s) of
        Inl e \<Rightarrow> None
      | Inr p' \<Rightarrow> Some \<lparr> pool = p', live = removeAll i (live s) \<rparr>)"
| "pool_step x s =
     (case acquired x (pool s) of
        (Some i, p') \<Rightarrow> Some \<lparr> pool = p', live = i # live s \<rparr>
      | (None, p') \<Rightarrow> Some \<lparr> pool = p', live = live s \<rparr>)"

fun pool_run :: "'y pool_op list \<Rightarrow> 'y pool_sys \<Rightarrow> 'y pool_sys option" where
  "pool_run [] s = Some s"
| "pool_run (x # xs) s =
     (case pool_step x s of None \<Rightarrow> None | Some s' \<Rightarrow> pool_run xs s')"

definition empty_pool :: "'y pool_sys" where
  "empty_pool = \<lparr> pool = \<lparr> buffers = [], release_calls = [] \<rparr>, live = [] \<rparr>"

text \<open>The invariant: the held handles are distinct and are exactly the buffers in use.\<close>

definition pool_inv :: "'y pool_sys \<Rightarrow> bool" where
  "pool_inv s =
     (distinct (live s) \<and>
      set (live s) = {i. i < length (buffers (pool s)) \<and> in_use (buffers (pool s) ! i)})"

text \<open>Arguments of a \<open>Realloc\<close> call for a 64x64 4:2:0 frame of 8-bit samples.\<close>

definition example_args :: realloc_args where
  "example_args = \<lparr> arg_bitdepth = 8, arg_is_monochrome = False, arg_width = 64,
     arg_height = 64, arg_subsampling_x = 1, arg_subsampling_y = 1, arg_left_border = 16,
     arg_right_border = 16, arg_top_border = 16, arg_bottom_border = 16 \<rparr>"

section \<open>The CDEF pipeline (the CDEF part of the post filter)\<close>

text \<open>
  The \<open>int\<close> values of the C++ code are pixel coordinates, strengths and byte offsets
  inside one frame; they are modelled by unbounded integers. Pointers are byte addresses in
  one flat memory, so that source and destination may alias. \<open>x >> s\<close> is \<open>drop_bit s x\<close>.
\<close>

subsection \<open>Memory and \<open>CopyPixels\<close>\<close>

type_synonym memory = "int \<Rightarrow> 8 word"

datatype fault =
  UninitializedRead | IndexOutOfRange | OverlappingCopy | InvalidCopySize | DivisionByZero |
  AssertFailed | NullPointer

text \<open>
  \<open>memcpy\<close> of \<open>n\<close> bytes. A negative \<open>int\<close> size becomes a huge \<open>size_t\<close>, and overlapping
  ranges are undefined behaviour: both are faults.
\<close>

definition memcpy :: "memory \<Rightarrow> int \<Rightarrow> int \<Rightarrow> int \<Rightarrow> fault + memory" where
  "memcpy m dst src n =
     (if n < 0 then Inl InvalidCopySize
      else if dst < src + n \<and> src < dst + n then Inl OverlappingCopy
      else Inr (\<lambda>a. if dst \<le> a \<and> a < dst + n then m (src + (a - dst)) else m a))"

text \<open>
  The do-while loop of \<open>CopyPixels\<close>, \<open>y\<close> rows still to copy: copy a row, advance both
  pointers, stop when the decremented counter is zero. The loop is entered with \<open>y > 0\<close>.
\<close>

fun CopyPixels_loop ::
  "memory \<Rightarrow> int \<Rightarrow> int \<Rightarrow> int \<Rightarrow> int \<Rightarrow> int \<Rightarrow> nat \<Rightarrow> fault + memory" where
  "CopyPixels_loop m src src_stride dst dst_stride n 0 = Inr m"
| "CopyPixels_loop m src src_stride dst dst_stride n (Suc y) =
     (case memcpy m dst src n of
        Inl e \<Rightarrow> Inl e
      | Inr m' \<Rightarrow>
          if y \<noteq> 0
          then CopyPixels_loop m' (src + src_stride) src_stride (dst + dst_stride) dst_stride n y
          else Inr m')"

text \<open>
  With \<open>height \<le> 0\<close> the counter of the do-while loop would have to wrap around before it
  reaches zero, copying rows far outside both buffers on the way: a fault.
\<close>

definition CopyPixels ::
  "memory \<Rightarrow> int \<Rightarrow> int \<Rightarrow> int \<Rightarrow> int \<Rightarrow> int \<Rightarrow> int \<Rightarrow> int \<Rightarrow> fault + memory" where
  "CopyPixels m src src_stride dst dst_stride width height pixel_size =
     (if height \<le> 0 then Inl InvalidCopySize
      else CopyPixels_loop m src src_stride dst dst_stride (width * pixel_size) (nat height))"


subsection \<open>Constants and tables\<close>

definition kStep64x64 :: int where
  "kStep64x64 = 16"

definition kCdefUvDirection :: "8 word list list list" where
  "kCdefUvDirection =
     [[[0, 1, 2, 3, 4, 5, 6, 7], [1, 2, 2, 2, 3, 4, 6, 0]],
      [[7, 0, 2, 4, 5, 6, 6, 6], [0, 1, 2, 3, 4, 5, 6, 7]]]"

text \<open>
  The read \<open>kCdefUvDirection[subsampling_x][subsampling_y][direction_y]\<close>, converted to
  \<open>int\<close>; an index outside the table is a fault.
\<close>

definition uv_direction :: "nat \<Rightarrow> nat \<Rightarrow> int \<Rightarrow> fault + int" where
  "uv_direction sx sy d =
     (if sx < 2 \<and> sy < 2 \<and> 0 \<le> d \<and> d < 8
      then Inr (uint (kCdefUvDirection ! sx ! sy ! nat d))
      else Inl IndexOutOfRange)"

text \<open>
  Modelled from the spec: \<open>kPlaneY\<close>, declared in src/utils/constants.h, which is not among
  the sources. The planes are Y, U, V in this order; the loops of \<open>ApplyCdefForOneUnit\<close>
  that start at \<open>plane = 0\<close> use the same numbering.
\<close>

definition kPlaneY :: nat where
  "kPlaneY = 0"

text \<open>
  Modelled from the spec: \<open>FloorLog2\<close>, declared in src/utils/common.h, which is not among
  the sources: the spec's \<open>floor_log2\<close>, the position of the highest set bit of a positive
  number. It is only meaningful for \<open>n > 0\<close>.
\<close>

fun floor_log2 :: "nat \<Rightarrow> nat" where
  "floor_log2 n = (if n < 2 then 0 else Suc (floor_log2 (n div 2)))"

declare floor_log2.simps [simp del]

definition FloorLog2 :: "int \<Rightarrow> int" where
  "FloorLog2 n = int (floor_log2 (nat n))"

text \<open>
  Modelled from the spec: the arithmetic helpers of src/utils/common.h, which is not among
  the sources. Each is the multiplication or the right shift that its name says.
\<close>

definition MultiplyBy2 :: "int \<Rightarrow> int" where
  "MultiplyBy2 x = 2 * x"

definition MultiplyBy4 :: "int \<Rightarrow> int" where
  "MultiplyBy4 x = 4 * x"

definition DivideBy4 :: "int \<Rightarrow> int" where
  "DivideBy4 x = drop_bit 2 x"

definition DivideBy16 :: "int \<Rightarrow> int" where
  "DivideBy16 x = drop_bit 4 x"

text \<open>The remainder of C's \<open>%\<close>, which truncates towards zero; the divisor is not zero.\<close>

definition c_rem :: "int \<Rightarrow> int \<Rightarrow> int" where
  "c_rem a b = sgn a * (\<bar>a\<bar> mod \<bar>b\<bar>)"

text \<open>The quotient of C's \<open>/\<close> on \<open>int\<close>, which truncates towards zero.\<close>

definition c_div :: "int \<Rightarrow> int \<Rightarrow> int" where
  "c_div a b = sgn a * sgn b * (\<bar>a\<bar> div \<bar>b\<bar>)"

subsection \<open>The filter object and its backend\<close>

text \<open>
  The members of \<open>PostFilter\<close> that the CDEF functions read. Arrays indexed by plane or
  by strength index are functions; the strength index comes from \<open>cdef_index_\<close> and is
  \<open>-1\<close> or a valid position of the strength arrays, whose elements are held in the
  \<open>uint8_t\<close> locals \<open>primary_strength\<close> and \<open>secondary_strength\<close>. \<open>thread_pool\<close> is
  \<open>None\<close> for the null pointer and otherwise the number of threads of the pool.
  \<open>block_parameters_\<close> is seen through \<open>bp_address\<close> (its \<open>Address\<close> function, giving a
  position in an array of pointers), \<open>bp_columns4x4\<close> and \<open>bp_skip\<close> (the skip flag of the
  block that the pointer at a position refers to).
\<close>

record PostFilter =
  planes :: nat
  subsampling_x :: "nat \<Rightarrow> nat"
  subsampling_y :: "nat \<Rightarrow> nat"
  pixel_size :: int
  window_buffer_width :: int
  window_buffer_height :: int
  thread_pool :: "nat option"
  threaded_window_buffer :: int
  cdef_buffer :: "nat \<Rightarrow> int"
  source_buffer :: "nat \<Rightarrow> int"
  frame_buffer_stride :: "nat \<Rightarrow> int"
  y_primary_strength :: "int \<Rightarrow> 8 word"
  y_secondary_strength :: "int \<Rightarrow> 8 word"
  uv_primary_strength :: "int \<Rightarrow> 8 word"
  uv_secondary_strength :: "int \<Rightarrow> 8 word"
  cdef_damping :: int
  rows4x4 :: int
  columns4x4 :: int
  cdef_index :: "int \<Rightarrow> int \<Rightarrow> int"
  bp_address :: "int \<Rightarrow> int \<Rightarrow> int"
  bp_columns4x4 :: int
  bp_skip :: "int \<Rightarrow> bool"

text \<open>The arguments of one call of the kernel \<open>dsp_.cdef_filter\<close>, in the order of the call.
  \<open>fc_src\<close> is the position of \<open>cdef_src\<close> in the scratch block \<open>cdef_block\<close>, counted in
  \<open>uint16_t\<close> elements. \<open>fc_plane\<close> is not an argument: it records the plane the call
  was made for.\<close>

record filter_call =
  fc_plane :: nat
  fc_src :: int
  fc_src_stride :: int
  fc_block_width :: int
  fc_block_height :: int
  fc_primary_strength :: int
  fc_secondary_strength :: int
  fc_damping :: int
  fc_direction :: int
  fc_dest :: int
  fc_dest_stride :: int

text \<open>
  What the CDEF functions use and this theory does not look into: two constants of
  src/utils/constants.h; the two kernels of the dsp table, \<open>cdef_direction\<close> returning
  the direction and the variance of the 8x8 block at a source address, \<open>cdef_filter\<close>
  writing its result into memory; and \<open>PrepareCdefBlock\<close>, which fills the scratch block
  (of type \<open>'s\<close>) that only \<open>cdef_filter\<close> reads, from the memory and its four
  arguments \<open>block_width4x4\<close>, \<open>block_height4x4\<close>, \<open>row4x4\<close>, \<open>column4x4\<close>.
\<close>

record 's backend =
  kCdefBorder :: int
  kRestorationProcessingUnitSizeWithBorders :: int
  cdef_direction :: "memory \<Rightarrow> int \<Rightarrow> int \<Rightarrow> int \<times> int"
  cdef_filter :: "'s \<Rightarrow> filter_call \<Rightarrow> memory \<Rightarrow> memory"
  PrepareCdefBlock :: "memory \<Rightarrow> int \<Rightarrow> int \<Rightarrow> int \<Rightarrow> int \<Rightarrow> 's"

text \<open>The state: the memory, and the calls made to the two kernels, oldest first.\<close>

datatype backend_call = DirectionCall int int | FilterCall filter_call

record cdef_state =
  mem :: memory
  calls :: "backend_call list"

subsection \<open>\<open>PostFilter::GetCdefBufferAndStride\<close>\<close>

text \<open>The result is the returned pointer and the stride written to \<open>*cdef_stride\<close>.\<close>

definition GetCdefBufferAndStride ::
  "PostFilter \<Rightarrow> int \<Rightarrow> int \<Rightarrow> nat \<Rightarrow> int \<Rightarrow> fault + (int \<times> int)" where
  "GetCdefBufferAndStride pf start_x start_y plane window_buffer_plane_size =
     (if thread_pool pf \<noteq> None
      then let cdef_stride = window_buffer_width pf * pixel_size pf;
               columns = drop_bit (subsampling_x pf plane) (window_buffer_width pf);
               rows = drop_bit (subsampling_y pf plane) (window_buffer_height pf) in
        if columns = 0 \<or> rows = 0 then Inl DivisionByZero
        else let column_window = c_rem start_x columns;
                 row_window = c_rem start_y rows in
          Inr (threaded_window_buffer pf + int plane * window_buffer_plane_size +
                 row_window * cdef_stride + column_window * pixel_size pf,
               cdef_stride)
      else let cdef_stride = frame_buffer_stride pf plane in
        Inr (cdef_buffer pf plane + start_y * cdef_stride + start_x * pixel_size pf,
             cdef_stride))"

text \<open>The results of a list of computations, or the first fault.\<close>

fun collect :: "(fault + 'a) list \<Rightarrow> fault + 'a list" where
  "collect [] = Inr []"
| "collect (x # xs) =
     (case x of
        Inl e \<Rightarrow> Inl e
      | Inr v \<Rightarrow> (case collect xs of Inl e \<Rightarrow> Inl e | Inr vs \<Rightarrow> Inr (v # vs)))"

subsection \<open>\<open>PostFilter::ApplyCdefForOneUnit\<close>: one plane of one 8x8 block\<close>

text \<open>
  The branch \<open>plane == kPlaneY\<close>. \<open>direction_y\<close> is \<open>None\<close> while the local variable has
  not been written; reading it then is a fault. The result is the new \<open>direction_y\<close>, the
  state, and the locals \<open>direction\<close>, \<open>primary_strength\<close> and \<open>secondary_strength\<close>; the
  last two are \<open>uint8_t\<close>, and the arithmetic on them is done in \<open>int\<close>.
\<close>

definition cdef_luma ::
  "'s backend \<Rightarrow> PostFilter \<Rightarrow> int \<Rightarrow> int \<Rightarrow> int \<Rightarrow> int option \<Rightarrow> cdef_state \<Rightarrow>
     fault + (int option \<times> cdef_state \<times> int \<times> 8 word \<times> 8 word)" where
  "cdef_luma be pf index src_buffer src_stride direction_y st =
     (let compute_direction_and_variance =
            (y_primary_strength pf index OR uv_primary_strength pf index) \<noteq> 0;
          (direction_y', variance, st') =
            (if compute_direction_and_variance
             then (Some (fst (cdef_direction be (mem st) src_buffer src_stride)),
                   snd (cdef_direction be (mem st) src_buffer src_stride),
                   st\<lparr>calls := calls st @ [DirectionCall src_buffer src_stride]\<rparr>)
             else (direction_y, 0, st));
          primary_strength = y_primary_strength pf index;
          secondary_strength = y_secondary_strength pf index in
      case (if primary_strength = 0 then Inr 0
            else case direction_y' of None \<Rightarrow> Inl UninitializedRead | Some d \<Rightarrow> Inr d) of
        Inl e \<Rightarrow> Inl e
      | Inr direction \<Rightarrow>
          let variance_strength =
                (if drop_bit 6 variance \<noteq> 0 then min (FloorLog2 (drop_bit 6 variance)) 12
                 else 0);
              primary_strength' =
                (if variance \<noteq> 0
                 then word_of_int (drop_bit 4 (uint primary_strength * (4 + variance_strength) + 8))
                 else 0) in
          Inr (direction_y', st', direction, primary_strength', secondary_strength))"

text \<open>The else branch, for the chroma planes.\<close>

definition cdef_chroma ::
  "PostFilter \<Rightarrow> int \<Rightarrow> nat \<Rightarrow> int option \<Rightarrow> fault + (int \<times> 8 word \<times> 8 word)" where
  "cdef_chroma pf index plane direction_y =
     (let primary_strength = uv_primary_strength pf index;
          secondary_strength = uv_secondary_strength pf index in
      case (if primary_strength = 0 then Inr 0
            else case direction_y of
                   None \<Rightarrow> Inl UninitializedRead
                 | Some d \<Rightarrow> uv_direction (subsampling_x pf plane) (subsampling_y pf plane) d) of
        Inl e \<Rightarrow> Inl e
      | Inr direction \<Rightarrow> Inr (direction, primary_strength, secondary_strength))"

text \<open>
  The arguments of the call of \<open>dsp_.cdef_filter\<close> at the end of the body of the loop over
  the planes, for the 8x8 block at \<open>(row4x4, column4x4)\<close> of the unit that starts at
  \<open>(row4x4_start, column4x4_start)\<close>: \<open>cdef_src\<close> is computed in three steps from
  \<open>cdef_block\<close>, and the two \<open>uint8_t\<close> strengths are converted to \<open>int\<close>.
\<close>

definition filter_args ::
  "'s backend \<Rightarrow> PostFilter \<Rightarrow> int \<Rightarrow> int \<Rightarrow> int \<Rightarrow> int \<Rightarrow> int \<Rightarrow> int \<Rightarrow> nat \<Rightarrow>
     8 word \<Rightarrow> 8 word \<Rightarrow> int \<Rightarrow> filter_call" where
  "filter_args be pf row4x4 row4x4_start column4x4 column4x4_start dest_stride dest
       plane primary_strength secondary_strength direction =
     (let subsampling_x = subsampling_x pf plane;
          subsampling_y = subsampling_y pf plane;
          block_width = drop_bit subsampling_x (8 :: int);
          block_height = drop_bit subsampling_y (8 :: int);
          cdef_src =
            int plane * kRestorationProcessingUnitSizeWithBorders be *
                kRestorationProcessingUnitSizeWithBorders be +
            (kCdefBorder be * kRestorationProcessingUnitSizeWithBorders be + kCdefBorder be) +
            (drop_bit subsampling_y (MultiplyBy4 (row4x4 - row4x4_start)) *
                 kRestorationProcessingUnitSizeWithBorders be +
               drop_bit subsampling_x (MultiplyBy4 (column4x4 - column4x4_start))) in
      \<lparr> fc_plane = plane, fc_src = cdef_src,
        fc_src_stride = kRestorationProcessingUnitSizeWithBorders be,
        fc_block_width = block_width, fc_block_height = block_height,
        fc_primary_strength = uint primary_strength,
        fc_secondary_strength = uint secondary_strength,
        fc_damping = cdef_damping pf - (if plane \<noteq> kPlaneY then 1 else 0),
        fc_direction = direction,
        fc_dest = dest, fc_dest_stride = dest_stride \<rparr>)"

text \<open>
  The body of the loop over the planes. \<open>scratch\<close> is the scratch block as
  \<open>PrepareCdefBlock\<close> left it, \<open>skip\<close> the conjunction of the four skip flags. The pair
  \<open>s\<close> is the local \<open>direction_y\<close>, which lives across the planes of one block, and the
  state.
\<close>

definition cdef_plane ::
  "'s backend \<Rightarrow> 's \<Rightarrow> PostFilter \<Rightarrow> int \<Rightarrow> bool \<Rightarrow> int \<Rightarrow> int \<Rightarrow> int \<Rightarrow> int \<Rightarrow>
     (nat \<Rightarrow> int) \<Rightarrow> (nat \<Rightarrow> int) \<Rightarrow> (nat \<Rightarrow> int) \<Rightarrow> nat \<Rightarrow> int option \<times> cdef_state \<Rightarrow>
     fault + (int option \<times> cdef_state)" where
  "cdef_plane be scratch pf index skip row4x4 row4x4_start column4x4 column4x4_start
       cdef_buffer_stride cdef_buffer_base src_buffer_base plane s =
     (let direction_y = fst s; st = snd s;
          subsampling_x = subsampling_x pf plane;
          subsampling_y = subsampling_y pf plane;
          block_width = drop_bit subsampling_x (8 :: int);
          block_height = drop_bit subsampling_y (8 :: int);
          cdef_stride = cdef_buffer_stride plane;
          cdef_buffer = cdef_buffer_base plane;
          src_stride = frame_buffer_stride pf plane;
          src_buffer = src_buffer_base plane in
      if skip
      then (case CopyPixels (mem st) src_buffer src_stride cdef_buffer cdef_stride
                   block_width block_height (pixel_size pf) of
              Inl e \<Rightarrow> Inl e
            | Inr m \<Rightarrow> Inr (direction_y, st\<lparr>mem := m\<rparr>))
      else
        case (if plane = kPlaneY
              then cdef_luma be pf index src_buffer src_stride direction_y st
              else case cdef_chroma pf index plane direction_y of
                     Inl e \<Rightarrow> Inl e
                   | Inr (direction, primary_strength, secondary_strength) \<Rightarrow>
                       Inr (direction_y, st, direction, primary_strength, secondary_strength)) of
          Inl e \<Rightarrow> Inl e
        | Inr (direction_y', st', direction, primary_strength, secondary_strength) \<Rightarrow>
            if (primary_strength OR secondary_strength) = 0
            then (case CopyPixels (mem st') src_buffer src_stride cdef_buffer cdef_stride
                         block_width block_height (pixel_size pf) of
                    Inl e \<Rightarrow> Inl e
                  | Inr m \<Rightarrow> Inr (direction_y', st'\<lparr>mem := m\<rparr>))
            else
              let call = filter_args be pf row4x4 row4x4_start column4x4 column4x4_start
                           cdef_stride cdef_buffer plane primary_strength secondary_strength
                           direction in
              Inr (direction_y',
                   \<lparr> mem = cdef_filter be scratch call (mem st'),
                     calls = calls st' @ [FilterCall call] \<rparr>))"

text \<open>The loop over the planes, over the planes still to do.\<close>

fun cdef_planes ::
  "'s backend \<Rightarrow> 's \<Rightarrow> PostFilter \<Rightarrow> int \<Rightarrow> bool \<Rightarrow> int \<Rightarrow> int \<Rightarrow> int \<Rightarrow> int \<Rightarrow>
     (nat \<Rightarrow> int) \<Rightarrow> (nat \<Rightarrow> int) \<Rightarrow> (nat \<Rightarrow> int) \<Rightarrow> nat list \<Rightarrow> int option \<times> cdef_state \<Rightarrow>
     fault + (int option \<times> cdef_state)" where
  "cdef_planes be scratch pf index skip row4x4 row4x4_start column4x4 column4x4_start
       cdef_buffer_stride cdef_buffer_base src_buffer_base [] s = Inr s"
| "cdef_planes be scratch pf index skip row4x4 row4x4_start column4x4 column4x4_start
       cdef_buffer_stride cdef_buffer_base src_buffer_base (plane # ps) s =
     (case cdef_plane be scratch pf index skip row4x4 row4x4_start column4x4 column4x4_start
             cdef_buffer_stride cdef_buffer_base src_buffer_base plane s of
        Inl e \<Rightarrow> Inl e
      | Inr s' \<Rightarrow>
          cdef_planes be scratch pf index skip row4x4 row4x4_start column4x4 column4x4_start
            cdef_buffer_stride cdef_buffer_base src_buffer_base ps s')"

text \<open>
  One iteration of the loop over the columns, up to the end of the loop over the planes:
  the four skip flags are read at the positions \<open>bp0\<close>, \<open>bp0 + 1\<close>, \<open>bp1\<close>, \<open>bp1 + 1\<close>, the
  locals are declared (\<open>direction_y\<close> without a value) and the planes are processed.
\<close>

definition cdef_block8x8 ::
  "'s backend \<Rightarrow> 's \<Rightarrow> PostFilter \<Rightarrow> int \<Rightarrow> int \<Rightarrow> int \<Rightarrow> int \<Rightarrow> int \<Rightarrow> int \<Rightarrow> int \<Rightarrow>
     (nat \<Rightarrow> int) \<Rightarrow> (nat \<Rightarrow> int) \<Rightarrow> (nat \<Rightarrow> int) \<Rightarrow> cdef_state \<Rightarrow> fault + cdef_state" where
  "cdef_block8x8 be scratch pf index bp0 bp1 row4x4 row4x4_start column4x4 column4x4_start
       cdef_buffer_stride cdef_buffer_base src_buffer_base st =
     (let skip = (bp_skip pf bp0 \<and> bp_skip pf (bp0 + 1) \<and> bp_skip pf bp1 \<and>
                  bp_skip pf (bp1 + 1)) in
      case cdef_planes be scratch pf index skip row4x4 row4x4_start column4x4 column4x4_start
             cdef_buffer_stride cdef_buffer_base src_buffer_base [kPlaneY..<planes pf]
             (None, st) of
        Inl e \<Rightarrow> Inl e
      | Inr s \<Rightarrow> Inr (snd s))"

subsection \<open>\<open>PostFilter::ApplyCdefForOneUnit\<close>: the loops\<close>

text \<open>
  The arrays of pointers indexed by plane are functions; a loop \<open>for (plane = 0; plane <
  planes_; ++plane)\<close> that adds a step to every entry changes the entries of the planes
  that exist.
\<close>

definition advance :: "PostFilter \<Rightarrow> (nat \<Rightarrow> int) \<Rightarrow> (nat \<Rightarrow> int) \<Rightarrow> nat \<Rightarrow> int" where
  "advance pf base step = (\<lambda>plane. if plane < planes pf then base plane + step plane else base plane)"

text \<open>
  The do-while loop over the columns of one row of 8x8 blocks (\<open>kStep4x4 = 2\<close>). It ends
  because \<open>column4x4\<close> grows by two towards a fixed bound.
\<close>

function cdef_columns ::
  "'s backend \<Rightarrow> 's \<Rightarrow> PostFilter \<Rightarrow> int \<Rightarrow> int \<Rightarrow> int \<Rightarrow> int \<Rightarrow> int \<Rightarrow>
     (nat \<Rightarrow> int) \<Rightarrow> (nat \<Rightarrow> int) \<Rightarrow>
     int \<Rightarrow> int \<Rightarrow> int \<Rightarrow> (nat \<Rightarrow> int) \<Rightarrow> (nat \<Rightarrow> int) \<Rightarrow> cdef_state \<Rightarrow> fault + cdef_state" where
  "cdef_columns be scratch pf index row4x4 row4x4_start column4x4_start block_width4x4
       cdef_buffer_stride column_step
       column4x4 bp0 bp1 cdef_buffer_base src_buffer_base st =
     (case cdef_block8x8 be scratch pf index bp0 bp1 row4x4 row4x4_start column4x4
             column4x4_start cdef_buffer_stride cdef_buffer_base src_buffer_base st of
        Inl e \<Rightarrow> Inl e
      | Inr st' \<Rightarrow>
          if column4x4 + 2 < column4x4_start + block_width4x4
          then cdef_columns be scratch pf index row4x4 row4x4_start column4x4_start
                 block_width4x4 cdef_buffer_stride column_step
                 (column4x4 + 2) (bp0 + 2) (bp1 + 2)
                 (advance pf cdef_buffer_base column_step)
                 (advance pf src_buffer_base column_step) st'
          else Inr st')"
  by pat_completeness auto
termination
  by (relation "measure (\<lambda>(be, scratch, pf, index, row4x4, row4x4_start, column4x4_start,
        block_width4x4, cdef_buffer_stride, column_step, column4x4, rest).
          nat (column4x4_start + block_width4x4 - column4x4))") auto

declare cdef_columns.simps [simp del]

text \<open>The do-while loop over the rows of 8x8 blocks.\<close>

function cdef_rows ::
  "'s backend \<Rightarrow> 's \<Rightarrow> PostFilter \<Rightarrow> int \<Rightarrow> int \<Rightarrow> int \<Rightarrow> int \<Rightarrow> int \<Rightarrow>
     (nat \<Rightarrow> int) \<Rightarrow> (nat \<Rightarrow> int) \<Rightarrow> (nat \<Rightarrow> int) \<Rightarrow> (nat \<Rightarrow> int) \<Rightarrow> int \<Rightarrow>
     int \<Rightarrow> int \<Rightarrow> int \<Rightarrow> (nat \<Rightarrow> int) \<Rightarrow> (nat \<Rightarrow> int) \<Rightarrow> cdef_state \<Rightarrow> fault + cdef_state" where
  "cdef_rows be scratch pf index row4x4_start column4x4_start block_width4x4 block_height4x4
       cdef_buffer_stride column_step cdef_buffer_row_base_stride src_buffer_row_base_stride
       bp_stride
       row4x4 bp_row0_base bp_row1_base cdef_buffer_row_base src_buffer_row_base st =
     (case cdef_columns be scratch pf index row4x4 row4x4_start column4x4_start block_width4x4
             cdef_buffer_stride column_step
             column4x4_start bp_row0_base bp_row1_base cdef_buffer_row_base
             src_buffer_row_base st of
        Inl e \<Rightarrow> Inl e
      | Inr st' \<Rightarrow>
          if row4x4 + 2 < row4x4_start + block_height4x4
          then cdef_rows be scratch pf index row4x4_start column4x4_start block_width4x4
                 block_height4x4 cdef_buffer_stride column_step cdef_buffer_row_base_stride
                 src_buffer_row_base_stride bp_stride
                 (row4x4 + 2) (bp_row0_base + bp_stride) (bp_row1_base + bp_stride)
                 (advance pf cdef_buffer_row_base cdef_buffer_row_base_stride)
                 (advance pf src_buffer_row_base src_buffer_row_base_stride) st'
          else Inr st')"
  by pat_completeness auto
termination
  by (relation "measure (\<lambda>(be, scratch, pf, index, row4x4_start, column4x4_start,
        block_width4x4, block_height4x4, cdef_buffer_stride, column_step,
        cdef_buffer_row_base_stride, src_buffer_row_base_stride, bp_stride, row4x4, rest).
          nat (row4x4_start + block_height4x4 - row4x4))") auto

declare cdef_rows.simps [simp del]

text \<open>The loop of the branch \<open>index == -1\<close>: every plane of the unit is copied.\<close>

fun copy_planes ::
  "PostFilter \<Rightarrow> int \<Rightarrow> int \<Rightarrow> (nat \<Rightarrow> int) \<Rightarrow> (nat \<Rightarrow> int) \<Rightarrow> (nat \<Rightarrow> int) \<Rightarrow>
     nat list \<Rightarrow> memory \<Rightarrow> fault + memory" where
  "copy_planes pf block_width4x4 block_height4x4 src_buffer_row_base cdef_buffer_row_base
       cdef_buffer_stride [] m = Inr m"
| "copy_planes pf block_width4x4 block_height4x4 src_buffer_row_base cdef_buffer_row_base
       cdef_buffer_stride (plane # ps) m =
     (case CopyPixels m (src_buffer_row_base plane) (frame_buffer_stride pf plane)
             (cdef_buffer_row_base plane) (cdef_buffer_stride plane)
             (drop_bit (subsampling_x pf plane) (MultiplyBy4 block_width4x4))
             (drop_bit (subsampling_y pf plane) (MultiplyBy4 block_height4x4))
             (pixel_size pf) of
        Inl e \<Rightarrow> Inl e
      | Inr m' \<Rightarrow>
          copy_planes pf block_width4x4 block_height4x4 src_buffer_row_base
            cdef_buffer_row_base cdef_buffer_stride ps m')"

text \<open>
  The whole function. The first loop fills the per-plane arrays for the planes that
  exist; the entries of the other planes stay uninitialised and are never used as
  pointers (here: positions outside the list \<open>bufs\<close>). The template parameter \<open>Pixel\<close>
  only selects the instance of \<open>PrepareCdefBlock\<close>.
\<close>

definition ApplyCdefForOneUnit ::
  "'s backend \<Rightarrow> PostFilter \<Rightarrow> int \<Rightarrow> int \<Rightarrow> int \<Rightarrow> int \<Rightarrow> int \<Rightarrow> cdef_state \<Rightarrow>
     fault + cdef_state" where
  "ApplyCdefForOneUnit be pf index block_width4x4 block_height4x4 row4x4_start
       column4x4_start st =
     (let kStep = (8 :: int);
          window_buffer_plane_size =
            window_buffer_width pf * window_buffer_height pf * pixel_size pf;
          start_y = (\<lambda>plane. drop_bit (subsampling_y pf plane) (MultiplyBy4 row4x4_start));
          start_x = (\<lambda>plane. drop_bit (subsampling_x pf plane) (MultiplyBy4 column4x4_start)) in
      case collect (map (\<lambda>plane. GetCdefBufferAndStride pf (start_x plane) (start_y plane)
                            plane window_buffer_plane_size) [kPlaneY..<planes pf]) of
        Inl e \<Rightarrow> Inl e
      | Inr bufs \<Rightarrow>
          let cdef_buffer_row_base = (\<lambda>plane. fst (bufs ! plane));
              cdef_buffer_stride = (\<lambda>plane. snd (bufs ! plane));
              cdef_buffer_row_base_stride =
                (\<lambda>plane. cdef_buffer_stride plane * drop_bit (subsampling_y pf plane) kStep);
              src_buffer_row_base =
                (\<lambda>plane. source_buffer pf plane + start_y plane * frame_buffer_stride pf plane +
                          start_x plane * pixel_size pf);
              src_buffer_row_base_stride =
                (\<lambda>plane. frame_buffer_stride pf plane * drop_bit (subsampling_y pf plane) kStep);
              column_step =
                (\<lambda>plane. drop_bit (subsampling_x pf plane) kStep * pixel_size pf) in
          if index = -1
          then (case copy_planes pf block_width4x4 block_height4x4 src_buffer_row_base
                       cdef_buffer_row_base cdef_buffer_stride [kPlaneY..<planes pf] (mem st) of
                  Inl e \<Rightarrow> Inl e
                | Inr m \<Rightarrow> Inr (st\<lparr>mem := m\<rparr>))
          else
            let scratch = PrepareCdefBlock be (mem st) block_width4x4 block_height4x4
                            row4x4_start column4x4_start;
                bp_row0_base = bp_address pf row4x4_start column4x4_start;
                bp_row1_base = bp_row0_base + bp_columns4x4 pf;
                bp_stride = MultiplyBy2 (bp_columns4x4 pf) in
            cdef_rows be scratch pf index row4x4_start column4x4_start block_width4x4
              block_height4x4 cdef_buffer_stride column_step cdef_buffer_row_base_stride
              src_buffer_row_base_stride bp_stride
              row4x4_start bp_row0_base bp_row1_base cdef_buffer_row_base
              src_buffer_row_base st)"

subsection \<open>\<open>PostFilter::ApplyCdefForOneSuperBlockRowHelper\<close>\<close>

text \<open>
  The loop over the 64x64 units of a row of units; \<open>column4x4\<close> is the loop variable. Both
  branches on the bit depth make the same call with a different \<open>Pixel\<close> type.
\<close>

function ApplyCdefForOneSuperBlockRowHelper_loop ::
  "'s backend \<Rightarrow> PostFilter \<Rightarrow> int \<Rightarrow> int \<Rightarrow> int \<Rightarrow> cdef_state \<Rightarrow> fault + cdef_state" where
  "ApplyCdefForOneSuperBlockRowHelper_loop be pf row4x4 block_height4x4 column4x4 st =
     (if column4x4 < columns4x4 pf
      then let index = cdef_index pf (DivideBy16 row4x4) (DivideBy16 column4x4);
               block_width4x4 = min kStep64x64 (columns4x4 pf - column4x4) in
        case ApplyCdefForOneUnit be pf index block_width4x4 block_height4x4 row4x4 column4x4 st of
          Inl e \<Rightarrow> Inl e
        | Inr st' \<Rightarrow>
            ApplyCdefForOneSuperBlockRowHelper_loop be pf row4x4 block_height4x4
              (column4x4 + kStep64x64) st'
      else Inr st)"
  by pat_completeness auto
termination
  by (relation "measure (\<lambda>(be, pf, row4x4, block_height4x4, column4x4, st).
        nat (columns4x4 pf - column4x4))") (auto simp: kStep64x64_def)

declare ApplyCdefForOneSuperBlockRowHelper_loop.simps [simp del]

definition ApplyCdefForOneSuperBlockRowHelper ::
  "'s backend \<Rightarrow> PostFilter \<Rightarrow> int \<Rightarrow> int \<Rightarrow> cdef_state \<Rightarrow> fault + cdef_state" where
  "ApplyCdefForOneSuperBlockRowHelper be pf row4x4 block_height4x4 st =
     ApplyCdefForOneSuperBlockRowHelper_loop be pf row4x4 block_height4x4 0 st"

subsection \<open>\<open>PostFilter::ApplyCdefForOneSuperBlockRow\<close>\<close>

text \<open>
  The loop over the 64-row bands of a superblock row, \<open>y\<close> the loop variable. The function
  \<open>helper\<close> stands for \<open>ApplyCdefForOneSuperBlockRowHelper\<close>, called with a first row and a
  number of rows; \<open>return\<close> leaves the loop with the state as it is, and a failing
  assertion is a fault.
\<close>

function ApplyCdefForOneSuperBlockRow_loop ::
  "(int \<Rightarrow> int \<Rightarrow> 'a \<Rightarrow> fault + 'a) \<Rightarrow> int \<Rightarrow> int \<Rightarrow> int \<Rightarrow> bool \<Rightarrow> int \<Rightarrow> 'a \<Rightarrow> fault + 'a" where
  "ApplyCdefForOneSuperBlockRow_loop helper frame_rows4x4 row4x4_start sb4x4 is_last_row y st =
     (if y < sb4x4
      then let row4x4 = row4x4_start + y in
        if row4x4 \<ge> frame_rows4x4 then Inr st
        else
          case (if row4x4 > 0 \<and> (\<not> is_last_row \<or> y = 0)
                then (if row4x4 \<ge> 16 then helper (row4x4 - 2) 2 st else Inl AssertFailed)
                else Inr st) of
            Inl e \<Rightarrow> Inl e
          | Inr st1 \<Rightarrow>
              let block_height4x4 = min kStep64x64 (frame_rows4x4 - row4x4);
                  height4x4 = block_height4x4 - (if is_last_row then 0 else 2) in
              case (if height4x4 > 0 then helper row4x4 height4x4 st1 else Inr st1) of
                Inl e \<Rightarrow> Inl e
              | Inr st2 \<Rightarrow>
                  ApplyCdefForOneSuperBlockRow_loop helper frame_rows4x4 row4x4_start sb4x4
                    is_last_row (y + kStep64x64) st2
      else Inr st)"
  by pat_completeness auto
termination
  by (relation "measure (\<lambda>(helper, frame_rows4x4, row4x4_start, sb4x4, is_last_row, y, st).
        nat (sb4x4 - y))") (auto simp: kStep64x64_def)

declare ApplyCdefForOneSuperBlockRow_loop.simps [simp del]

text \<open>
  The function itself. \<open>assert(DoCdef())\<close> is a condition on the frame header that the
  caller has checked; it is not modelled.
\<close>

definition ApplyCdefForOneSuperBlockRow ::
  "'s backend \<Rightarrow> PostFilter \<Rightarrow> int \<Rightarrow> int \<Rightarrow> bool \<Rightarrow> cdef_state \<Rightarrow> fault + cdef_state" where
  "ApplyCdefForOneSuperBlockRow be pf row4x4_start sb4x4 is_last_row st =
     (if \<not> row4x4_start \<ge> 0 then Inl AssertFailed
      else ApplyCdefForOneSuperBlockRow_loop (ApplyCdefForOneSuperBlockRowHelper be pf)
             (rows4x4 pf) row4x4_start sb4x4 is_last_row 0 st)"

subsection \<open>\<open>PostFilter::ApplyCdefThreaded\<close>\<close>

text \<open>
  The function hands work to the threads of \<open>thread_pool_\<close> and waits for them at a
  \<open>BlockingCounter\<close>; neither class is among the sources. What the function itself does
  is the sequence of its calls, and the model returns this sequence, oldest call first:
  \<open>NewCounter n\<close> is the construction \<open>BlockingCounter pending_jobs(n)\<close>;
  \<open>Schedule r c\<close> is the call of \<open>thread_pool_->Schedule\<close> with the closure that calls
  \<open>ApplyCdefForOneRowInWindow(r, c)\<close> and then \<open>pending_jobs.Decrement()\<close>;
  \<open>RunInline r c\<close> is the call of \<open>ApplyCdefForOneRowInWindow(r, c)\<close> on the calling
  thread; \<open>WaitCounter\<close> is \<open>pending_jobs.Wait()\<close>; \<open>CopyPlane\<close> is the call of
  \<open>CopyPlane\<close> with its six arguments, in the order of the call. What
  \<open>ApplyCdefForOneRowInWindow\<close> writes is not looked into here.
\<close>

record plane_copy =
  pc_src :: int
  pc_src_stride :: int
  pc_width :: int
  pc_height :: int
  pc_dst :: int
  pc_dst_stride :: int

datatype caller_action =
    NewCounter int
  | Schedule int int
  | RunInline int int
  | WaitCounter
  | CopyPlane plane_copy

text \<open>
  The loop over the 64-row bands of one window, \<open>row64x64\<close> and \<open>job_count\<close> the loop
  variables.
\<close>

function ApplyCdefThreaded_bands :: "int \<Rightarrow> int \<Rightarrow> int \<Rightarrow> int \<Rightarrow> int \<Rightarrow> int \<Rightarrow> caller_action list" where
  "ApplyCdefThreaded_bands jobs_for_threadpool actual_window_height4x4 row4x4 column4x4
       row64x64 job_count =
     (if row64x64 < actual_window_height4x4
      then (if job_count < jobs_for_threadpool
            then Schedule (row4x4 + row64x64) column4x4
            else RunInline (row4x4 + row64x64) column4x4) #
           ApplyCdefThreaded_bands jobs_for_threadpool actual_window_height4x4 row4x4 column4x4
             (row64x64 + kStep64x64) (job_count + 1)
      else [])"
  by pat_completeness auto
termination
  by (relation "measure (\<lambda>(jobs_for_threadpool, actual_window_height4x4, row4x4, column4x4,
        row64x64, job_count). nat (actual_window_height4x4 - row64x64))")
     (auto simp: kStep64x64_def)

declare ApplyCdefThreaded_bands.simps [simp del]

text \<open>The arguments of the call of \<open>CopyPlane\<close> for one plane of one window.\<close>

definition window_copy :: "PostFilter \<Rightarrow> int \<Rightarrow> int \<Rightarrow> nat \<Rightarrow> plane_copy" where
  "window_copy pf row4x4 column4x4 plane =
     (let window_buffer_plane_size =
            window_buffer_width pf * window_buffer_height pf * pixel_size pf;
          window_buffer_height4x4 = DivideBy4 (window_buffer_height pf);
          src_stride = frame_buffer_stride pf plane;
          plane_row = drop_bit (subsampling_y pf plane) (MultiplyBy4 row4x4);
          plane_column = drop_bit (subsampling_x pf plane) (MultiplyBy4 column4x4);
          copy_width = min (columns4x4 pf - column4x4) (DivideBy4 (window_buffer_width pf));
          copy_width = drop_bit (subsampling_x pf plane) (MultiplyBy4 copy_width);
          copy_height = min (rows4x4 pf - row4x4) window_buffer_height4x4;
          copy_height = drop_bit (subsampling_y pf plane) (MultiplyBy4 copy_height) in
      \<lparr> pc_src = threaded_window_buffer pf + int plane * window_buffer_plane_size,
        pc_src_stride = window_buffer_width pf * pixel_size pf,
        pc_width = copy_width, pc_height = copy_height,
        pc_dst = cdef_buffer pf plane + plane_row * src_stride + plane_column * pixel_size pf,
        pc_dst_stride = src_stride \<rparr>)"

text \<open>
  The body of the loop over \<open>column4x4\<close>: one window. \<open>num_workers\<close> is a number of
  threads, so \<open>num_workers + 1\<close> is not zero.
\<close>

definition ApplyCdefThreaded_window ::
  "PostFilter \<Rightarrow> nat \<Rightarrow> int \<Rightarrow> int \<Rightarrow> int \<Rightarrow> int \<Rightarrow> caller_action list" where
  "ApplyCdefThreaded_window pf num_workers row4x4 actual_window_height4x4
       vertical_units_per_window column4x4 =
     (let jobs_for_threadpool =
            c_div (vertical_units_per_window * int num_workers) (int num_workers + 1) in
      NewCounter jobs_for_threadpool #
      ApplyCdefThreaded_bands jobs_for_threadpool actual_window_height4x4 row4x4 column4x4 0 0 @
      WaitCounter #
      map (\<lambda>plane. CopyPlane (window_copy pf row4x4 column4x4 plane)) [kPlaneY..<planes pf])"

text \<open>
  The loops over \<open>column4x4\<close> and over \<open>row4x4\<close> advance by the width and the height of
  the window buffer. With a step that is not positive they do not end: they are partial
  functions, and \<open>None\<close> is the run that does not return.
\<close>

partial_function (option) ApplyCdefThreaded_columns ::
  "PostFilter \<Rightarrow> nat \<Rightarrow> int \<Rightarrow> int \<Rightarrow> int \<Rightarrow> int \<Rightarrow> caller_action list option" where
  "ApplyCdefThreaded_columns pf num_workers row4x4 actual_window_height4x4
       vertical_units_per_window column4x4 =
     (if column4x4 < columns4x4 pf
      then Option.bind
             (ApplyCdefThreaded_columns pf num_workers row4x4 actual_window_height4x4
                vertical_units_per_window (column4x4 + DivideBy4 (window_buffer_width pf)))
             (\<lambda>rest. Some (ApplyCdefThreaded_window pf num_workers row4x4
                              actual_window_height4x4 vertical_units_per_window column4x4 @
                            rest))
      else Some [])"

declare ApplyCdefThreaded_columns.simps [code]

partial_function (option) ApplyCdefThreaded_rows ::
  "PostFilter \<Rightarrow> nat \<Rightarrow> int \<Rightarrow> caller_action list option" where
  "ApplyCdefThreaded_rows pf num_workers row4x4 =
     (if row4x4 < rows4x4 pf
      then let window_buffer_height4x4 = DivideBy4 (window_buffer_height pf);
               actual_window_height4x4 = min window_buffer_height4x4 (rows4x4 pf - row4x4);
               vertical_units_per_window = DivideBy16 (actual_window_height4x4 + 15) in
           Option.bind
             (ApplyCdefThreaded_columns pf num_workers row4x4 actual_window_height4x4
                vertical_units_per_window 0)
             (\<lambda>window_row.
                Option.bind
                  (ApplyCdefThreaded_rows pf num_workers (row4x4 + window_buffer_height4x4))
                  (\<lambda>rest. Some (window_row @ rest)))
      else Some [])"

declare ApplyCdefThreaded_rows.simps [code]

text \<open>
  The function itself: the assertion, the read of \<open>thread_pool_->num_threads()\<close>, which
  needs a thread pool, and the loop over \<open>row4x4\<close> from 0.
\<close>

definition ApplyCdefThreaded :: "PostFilter \<Rightarrow> (fault + caller_action list) option" where
  "ApplyCdefThreaded pf =
     (if window_buffer_height pf AND 63 \<noteq> 0 then Some (Inl AssertFailed)
      else case thread_pool pf of
             None \<Rightarrow> Some (Inl NullPointer)
           | Some num_workers \<Rightarrow> map_option Inr (ApplyCdefThreaded_rows pf num_workers 0))"

section \<open>Notions for stating the properties\<close>

subsection \<open>The strength formula as the specification writes it\<close>

text \<open>
  \<open>variance_strength = (V>>6 != 0) ? min(floor_log2(V>>6), 12) : 0\<close> and
  \<open>effective_primary = (V != 0) ? (primary_strength * (4 + variance_strength) + 8) >> 4 : 0\<close>,
  on mathematical integers.
\<close>

definition spec_variance_strength :: "int \<Rightarrow> int" where
  "spec_variance_strength V =
     (if V div 2 ^ 6 \<noteq> 0 then min (FloorLog2 (V div 2 ^ 6)) 12 else 0)"

definition spec_effective_primary :: "int \<Rightarrow> int \<Rightarrow> int" where
  "spec_effective_primary V p =
     (if V \<noteq> 0 then (p * (4 + spec_variance_strength V) + 8) div 2 ^ 4 else 0)"

subsection \<open>An example frame\<close>

text \<open>
  A 4:2:2 frame of 16x16 pixels with 8-bit samples, filtered without a thread pool; the
  three source planes start at 0, 2000 and 4000, the destination planes at 10000, 12000
  and 14000, all with stride 64. The luma strengths are 16 and 1, the chroma strengths
  0 and 1, and no block is skipped. The example backend reports direction 3 and variance
  4096 for every block, and its filter kernel writes nothing.
\<close>

definition example_filter :: PostFilter where
  "example_filter =
     \<lparr> planes = 3, subsampling_x = (\<lambda>p. if p = 0 then 0 else 1),
       subsampling_y = (\<lambda>p. 0), pixel_size = 1,
       window_buffer_width = 64, window_buffer_height = 64, thread_pool = None,
       threaded_window_buffer = 0,
       cdef_buffer = (\<lambda>p. 10000 + 2000 * int p), source_buffer = (\<lambda>p. 2000 * int p),
       frame_buffer_stride = (\<lambda>p. 64),
       y_primary_strength = (\<lambda>i. 16), y_secondary_strength = (\<lambda>i. 1),
       uv_primary_strength = (\<lambda>i. 0), uv_secondary_strength = (\<lambda>i. 1),
       cdef_damping = 5, rows4x4 = 4, columns4x4 = 4, cdef_index = (\<lambda>r c. 0),
       bp_address = (\<lambda>r c. r * 4 + c), bp_columns4x4 = 4, bp_skip = (\<lambda>i. False) \<rparr>"

definition example_backend :: "unit backend" where
  "example_backend =
     \<lparr> kCdefBorder = 2, kRestorationProcessingUnitSizeWithBorders = 70,
       cdef_direction = (\<lambda>m src stride. (3, 4096)),
       cdef_filter = (\<lambda>s c m. m),
       PrepareCdefBlock = (\<lambda>m a b c d. ()) \<rparr>"

definition example_state :: cdef_state where
  "example_state = \<lparr> mem = (\<lambda>a. word_of_int a), calls = [] \<rparr>"



subsection \<open>The kernel calls of a block that is not skipped\<close>

text \<open>
  The value that the luma branch leaves in the \<open>uint8_t\<close> local \<open>primary_strength\<close> when
  the local \<open>variance\<close> has the given value.
\<close>

definition luma_primary :: "PostFilter \<Rightarrow> int \<Rightarrow> int \<Rightarrow> 8 word" where
  "luma_primary pf index variance =
     (if variance \<noteq> 0
      then word_of_int (drop_bit 4 (uint (y_primary_strength pf index) *
             (4 + (if drop_bit 6 variance \<noteq> 0 then min (FloorLog2 (drop_bit 6 variance)) 12
                   else 0)) + 8))
      else 0)"

text \<open>
  What a kernel call made for a chroma plane looks like when the luma direction of the block
  is \<open>d0\<close>: it is a filter call, and its direction is 0 when the chroma primary strength is
  0 and the table entry for \<open>d0\<close> otherwise.
\<close>

definition chroma_call_ok :: "PostFilter \<Rightarrow> int \<Rightarrow> int \<Rightarrow> backend_call \<Rightarrow> bool" where
  "chroma_call_ok pf index d0 c =
     (case c of
        DirectionCall s t \<Rightarrow> False
      | FilterCall fc \<Rightarrow>
          fc_plane fc \<noteq> kPlaneY \<and>
          (if uv_primary_strength pf index = 0 then fc_direction fc = 0
           else uv_direction (subsampling_x pf (fc_plane fc)) (subsampling_y pf (fc_plane fc)) d0
                  = Inr (fc_direction fc)))"

text \<open>
  The kernel calls made for the block at the top left of the example frame, and those made
  when the chroma primary strength is 4 instead of 0.
\<close>

definition example_calls :: "backend_call list" where
  "example_calls =
     [DirectionCall 0 64,
      FilterCall \<lparr> fc_plane = 0, fc_src = 142, fc_src_stride = 70, fc_block_width = 8,
        fc_block_height = 8, fc_primary_strength = 10, fc_secondary_strength = 1,
        fc_damping = 5, fc_direction = 3, fc_dest = 10000, fc_dest_stride = 64 \<rparr>,
      FilterCall \<lparr> fc_plane = 1, fc_src = 5042, fc_src_stride = 70, fc_block_width = 4,
        fc_block_height = 8, fc_primary_strength = 0, fc_secondary_strength = 1,
        fc_damping = 4, fc_direction = 0, fc_dest = 12000, fc_dest_stride = 64 \<rparr>,
      FilterCall \<lparr> fc_plane = 2, fc_src = 9942, fc_src_stride = 70, fc_block_width = 4,
        fc_block_height = 8, fc_primary_strength = 0, fc_secondary_strength = 1,
        fc_damping = 4, fc_direction = 0, fc_dest = 14000, fc_dest_stride = 64 \<rparr>]"

definition example_calls_uv :: "backend_call list" where
  "example_calls_uv =
     [DirectionCall 0 64,
      FilterCall \<lparr> fc_plane = 0, fc_src = 142, fc_src_stride = 70, fc_block_width = 8,
        fc_block_height = 8, fc_primary_strength = 10, fc_secondary_strength = 1,
        fc_damping = 5, fc_direction = 3, fc_dest = 10000, fc_dest_stride = 64 \<rparr>,
      FilterCall \<lparr> fc_plane = 1, fc_src = 5042, fc_src_stride = 70, fc_block_width = 4,
        fc_block_height = 8, fc_primary_strength = 4, fc_secondary_strength = 1,
        fc_damping = 4, fc_direction = 4, fc_dest = 12000, fc_dest_stride = 64 \<rparr>,
      FilterCall \<lparr> fc_plane = 2, fc_src = 9942, fc_src_stride = 70, fc_block_width = 4,
        fc_block_height = 8, fc_primary_strength = 4, fc_secondary_strength = 1,
        fc_damping = 4, fc_direction = 4, fc_dest = 14000, fc_dest_stride = 64 \<rparr>]"

subsection \<open>The schedule of a superblock row\<close>

text \<open>
  A call of the helper is a first row and a number of rows, both counted in 4x4 units.
  \<open>run_helper\<close> makes a list of calls in order. \<open>cdef_schedule\<close> is the schedule as the
  specification describes it: first the two rows that the previous superblock row left
  over, unless this is the first row; then the rows of this superblock row, band by band,
  without its last two rows unless this is the last superblock row. \<open>filtered_rows\<close> lists
  the rows that a list of calls filters.
\<close>

fun run_helper :: "(int \<Rightarrow> int \<Rightarrow> 'a \<Rightarrow> fault + 'a) \<Rightarrow> (int \<times> int) list \<Rightarrow> 'a \<Rightarrow> fault + 'a" where
  "run_helper helper [] st = Inr st"
| "run_helper helper (c # cs) st =
     (case helper (fst c) (snd c) st of
        Inl e \<Rightarrow> Inl e
      | Inr st' \<Rightarrow> run_helper helper cs st')"

definition cdef_schedule :: "int \<Rightarrow> int \<Rightarrow> int \<Rightarrow> bool \<Rightarrow> (int \<times> int) list" where
  "cdef_schedule frame_rows4x4 row4x4_start sb4x4 is_last_row =
     (if row4x4_start > 0 then [(row4x4_start - 2, 2)] else []) @
     (if is_last_row
      then (row4x4_start, min 16 (frame_rows4x4 - row4x4_start)) #
           (if sb4x4 = 32 \<and> row4x4_start + 16 < frame_rows4x4
            then [(row4x4_start + 16, min 16 (frame_rows4x4 - (row4x4_start + 16)))] else [])
      else if sb4x4 = 32
           then [(row4x4_start, 14), (row4x4_start + 14, 2), (row4x4_start + 16, 14)]
           else [(row4x4_start, 14)])"

definition filtered_rows :: "(int \<times> int) list \<Rightarrow> int list" where
  "filtered_rows cs = concat (map (\<lambda>c. [fst c .. fst c + snd c - 1]) cs)"

subsection \<open>Row copies\<close>










subsection \<open>The blocks of a unit\<close>





text \<open>
  The loops step by \<open>kStep4x4 = 2\<close> while the loop variable is below the width or
  height, and a \<open>do\<close> loop runs at least once: \<open>block_count n\<close> is the number of
  iterations for \<open>n\<close> 4x4 units. \<open>advanced\<close> is a pointer array after \<open>k\<close> increments of
  its entries for the planes that exist.
\<close>

definition block_count :: "int \<Rightarrow> int" where
  "block_count n = max 1 ((n + 1) div 2)"














subsection \<open>The windows of the threaded pass\<close>

text \<open>
  An example for the threaded pass: the example frame with 56 rows and 16 columns of 4x4
  units, a window buffer of 64x192 pixels and a pool of two threads.
\<close>

definition threaded_filter :: PostFilter where
  "threaded_filter = example_filter
     \<lparr> window_buffer_width := 64, window_buffer_height := 192, thread_pool := Some 2,
       rows4x4 := 56, columns4x4 := 16 \<rparr>"

text \<open>
  The threaded pass as the specification describes it. A window is named by its first row
  and its first column, in 4x4 units; \<open>window_starts\<close> lists the multiples of the window
  size below the frame size, \<open>windows\<close> the windows of the frame row by row, and
  \<open>window_bands\<close> is the number \<open>N\<close> of 64-row bands of a window, the last of which may
  be cut by the end of the frame. For a window, \<open>window_plan\<close> with \<open>W\<close> threads sets the
  counter to \<open>J = N * W div (W + 1)\<close>, submits the first \<open>J\<close> bands, runs the other
  \<open>N - J\<close> bands itself, waits, and copies every plane.
\<close>

definition window_bands :: "PostFilter \<Rightarrow> int \<Rightarrow> int" where
  "window_bands pf row4x4 =
     (min (window_buffer_height pf div 4) (rows4x4 pf - row4x4) + 15) div 16"

definition window_plan :: "PostFilter \<Rightarrow> nat \<Rightarrow> int \<times> int \<Rightarrow> caller_action list" where
  "window_plan pf W w =
     (case w of (row4x4, column4x4) \<Rightarrow>
        let N = window_bands pf row4x4;
            J = N * int W div (int W + 1) in
        NewCounter J #
        map (\<lambda>i. Schedule (row4x4 + 16 * i) column4x4) [0 .. J - 1] @
        map (\<lambda>i. RunInline (row4x4 + 16 * i) column4x4) [J .. N - 1] @
        WaitCounter #
        map (\<lambda>plane. CopyPlane (window_copy pf row4x4 column4x4 plane)) [0..<planes pf])"

definition window_starts :: "int \<Rightarrow> int \<Rightarrow> int list" where
  "window_starts bound step = map (\<lambda>k. int k * step) [0..<nat ((bound + step - 1) div step)]"

definition windows :: "PostFilter \<Rightarrow> (int \<times> int) list" where
  "windows pf =
     List.product (window_starts (rows4x4 pf) (window_buffer_height pf div 4))
                  (window_starts (columns4x4 pf) (window_buffer_width pf div 4))"

definition threaded_plan :: "PostFilter \<Rightarrow> nat \<Rightarrow> caller_action list" where
  "threaded_plan pf W = concat (map (window_plan pf W) (windows pf))"

subsection \<open>The thread pool and the counter\<close>

text \<open>
  Modelled from the spec: \<open>ThreadPool\<close> and \<open>BlockingCounter\<close>, declared in
  src/utils/threadpool.h and src/utils/blocking\_counter.h, which are not among the sources.
  The pool is a fixed number of workers that take submitted jobs from a queue, one job at a
  time, and never wait for one another; the counter is a number that \<open>Decrement\<close> lowers
  by one and at which \<open>Wait\<close> blocks until it is zero.

  A job is the row and the column of its band. A worker is idle, or runs
  \<open>ApplyCdefForOneRowInWindow\<close> for a job, or has finished that and is about to call
  \<open>Decrement\<close>: the two steps of the closure that \<open>ApplyCdefThreaded\<close> submits. A
  configuration holds what the calling thread still has to do, the queue, the workers and
  the counter, and for the record the jobs submitted and the jobs whose filtering is
  finished, both in order of time.
\<close>

type_synonym job = "int \<times> int"

datatype worker = Idle | Filtering job | Decrementing job

record pool_conf =
  caller :: "caller_action list"
  queued :: "job list"
  workers :: "worker list"
  counter :: int
  submitted :: "job list"
  completed :: "job list"

text \<open>
  One step of the calling thread: its next action. \<open>WaitCounter\<close> can only be passed when
  the counter is zero; \<open>None\<close> means that the thread cannot move.
\<close>

fun caller_act :: "caller_action \<Rightarrow> pool_conf \<Rightarrow> pool_conf option" where
  "caller_act (NewCounter n) c = Some (c\<lparr>counter := n\<rparr>)"
| "caller_act (Schedule row4x4 column4x4) c =
     Some (c\<lparr>queued := queued c @ [(row4x4, column4x4)],
             submitted := submitted c @ [(row4x4, column4x4)]\<rparr>)"
| "caller_act (RunInline row4x4 column4x4) c = Some c"
| "caller_act WaitCounter c = (if counter c = 0 then Some c else None)"
| "caller_act (CopyPlane pc) c = Some c"

definition caller_step :: "pool_conf \<Rightarrow> pool_conf option" where
  "caller_step c =
     (case caller c of
        [] \<Rightarrow> None
      | a # p \<Rightarrow> caller_act a (c\<lparr>caller := p\<rparr>))"

text \<open>
  One step of worker \<open>i\<close>: an idle worker takes the oldest job of the queue, a filtering
  worker finishes its band, and a worker that has finished its band decrements the counter
  and is idle again.
\<close>

definition worker_step :: "nat \<Rightarrow> pool_conf \<Rightarrow> pool_conf option" where
  "worker_step i c =
     (if i < length (workers c)
      then case workers c ! i of
             Idle \<Rightarrow>
               (case queued c of
                  [] \<Rightarrow> None
                | j # q \<Rightarrow> Some (c\<lparr>queued := q, workers := (workers c)[i := Filtering j]\<rparr>))
           | Filtering j \<Rightarrow>
               Some (c\<lparr>workers := (workers c)[i := Decrementing j],
                       completed := completed c @ [j]\<rparr>)
           | Decrementing j \<Rightarrow>
               Some (c\<lparr>workers := (workers c)[i := Idle], counter := counter c - 1\<rparr>)
      else None)"

text \<open>
  An interleaving is a list of choices of who moves next; \<open>sched_run\<close> follows it and is
  \<open>None\<close> when the one chosen cannot move.
\<close>

datatype choice = Caller | Worker nat

fun sched_step :: "choice \<Rightarrow> pool_conf \<Rightarrow> pool_conf option" where
  "sched_step Caller c = caller_step c"
| "sched_step (Worker i) c = worker_step i c"

fun sched_run :: "choice list \<Rightarrow> pool_conf \<Rightarrow> pool_conf option" where
  "sched_run [] c = Some c"
| "sched_run (x # xs) c =
     (case sched_step x c of
        None \<Rightarrow> None
      | Some c' \<Rightarrow> sched_run xs c')"

definition initial_conf :: "nat \<Rightarrow> caller_action list \<Rightarrow> pool_conf" where
  "initial_conf W program =
     \<lparr> caller = program, queued = [], workers = replicate W Idle, counter = 0,
       submitted = [], completed = [] \<rparr>"

text \<open>The actions that submit a band, and those that run a band on the calling thread.\<close>

fun is_Schedule :: "caller_action \<Rightarrow> bool" where
  "is_Schedule (Schedule row4x4 column4x4) = True"
| "is_Schedule a = False"

fun is_RunInline :: "caller_action \<Rightarrow> bool" where
  "is_RunInline (RunInline row4x4 column4x4) = True"
| "is_RunInline a = False"

subsection \<open>An invariant of the interleavings\<close>

text \<open>
  A program of the calling thread is balanced when every counter is set to the number of
  jobs submitted before the wait that follows, and planes are only copied between a wait
  and the next counter. The first argument is \<open>None\<close> outside such a stretch, and inside
  it the number of jobs still to be submitted.
\<close>

fun balanced :: "int option \<Rightarrow> caller_action list \<Rightarrow> bool" where
  "balanced ph [] = True"
| "balanced ph (NewCounter n # p) = (ph = None \<and> balanced (Some n) p)"
| "balanced ph (Schedule row4x4 column4x4 # p) =
     (case ph of None \<Rightarrow> False | Some k \<Rightarrow> balanced (Some (k - 1)) p)"
| "balanced ph (RunInline row4x4 column4x4 # p) = balanced ph p"
| "balanced ph (WaitCounter # p) = (ph = Some 0 \<and> balanced None p)"
| "balanced ph (CopyPlane pc # p) = (ph = None \<and> balanced None p)"

text \<open>
  The workers that are not idle, counted, and the jobs of the workers that are filtering.
  In every configuration that an interleaving reaches, the counter is the number of jobs
  still to be submitted, queued, or held by a worker, and every submitted job is queued,
  being filtered, or finished.
\<close>

definition busy :: "worker list \<Rightarrow> int" where
  "busy ws = int (length (filter (\<lambda>w. w \<noteq> Idle) ws))"

fun held :: "worker \<Rightarrow> job list" where
  "held (Filtering j) = [j]"
| "held w = []"

definition filtering :: "worker list \<Rightarrow> job list" where
  "filtering ws = concat (map held ws)"

definition counter_inv :: "pool_conf \<Rightarrow> bool" where
  "counter_inv c \<longleftrightarrow>
     (\<exists>ph. balanced ph (caller c) \<and>
        (case ph of
           Some k \<Rightarrow> counter c = k + int (length (queued c)) + busy (workers c)
         | None \<Rightarrow> queued c = [] \<and> busy (workers c) = 0))"

definition jobs_inv :: "pool_conf \<Rightarrow> bool" where
  "jobs_inv c \<longleftrightarrow>
     mset (submitted c) = mset (queued c) + mset (filtering (workers c)) + mset (completed c)"

section \<open>Properties of the buffer pool\<close>

lemma first_free_Some:
  "first_free bs = Some i \<Longrightarrow> i < length bs \<and> \<not> in_use (bs ! i)"
proof (induction bs arbitrary: i)
  case Nil
  then show ?case by simp
next
  case (Cons b bs)
  then show ?case by (auto split: if_splits)
qed

lemma first_free_None:
  "first_free bs = None \<Longrightarrow> i < length bs \<Longrightarrow> in_use (bs ! i)"
proof (induction bs arbitrary: i)
  case Nil
  then show ?case by simp
next
  case (Cons b bs)
  then show ?case by (cases i) (auto split: if_splits)
qed

lemma GetFreeBuffer_new_Some:
  assumes "GetFreeBuffer_new y a ps p = (Some i, p')"
  shows "i = length (buffers p) \<and> length (buffers p') = Suc (length (buffers p))
       \<and> in_use (buffers p' ! i)
       \<and> (\<forall>j. j < length (buffers p) \<longrightarrow> buffers p' ! j = buffers p ! j)"
  using assms
  by (auto simp: GetFreeBuffer_new_def Let_def nth_append split: if_splits)

lemma GetFreeBuffer_new_None:
  "GetFreeBuffer_new y a ps p = (None, p') \<Longrightarrow> p' = p"
  by (auto simp: GetFreeBuffer_new_def Let_def split: if_splits)

lemma GetFreeBuffer_Some:
  assumes "GetFreeBuffer y a ps p = (Some i, p')"
  shows "(i < length (buffers p) \<and> \<not> in_use (buffers p ! i) \<and> length (buffers p') = length (buffers p)
          \<or> i = length (buffers p) \<and> length (buffers p') = Suc (length (buffers p)))
       \<and> in_use (buffers p' ! i)
       \<and> (\<forall>j. j < length (buffers p) \<and> j \<noteq> i \<longrightarrow> buffers p' ! j = buffers p ! j)"
proof (cases "first_free (buffers p)")
  case None
  with assms have "GetFreeBuffer_new y a ps p = (Some i, p')"
    by (simp add: GetFreeBuffer_def)
  from GetFreeBuffer_new_Some[OF this] show ?thesis by auto
next
  case (Some k)
  from first_free_Some[OF Some] assms Some show ?thesis
    by (auto simp: GetFreeBuffer_def)
qed

lemma GetFreeBuffer_None:
  "GetFreeBuffer y a ps p = (None, p') \<Longrightarrow> p' = p"
  by (auto simp: GetFreeBuffer_def dest: GetFreeBuffer_new_None split: option.splits)

lemma acquired_Some:
  assumes "acquired x p = (Some i, p')"
  shows "(i < length (buffers p) \<and> \<not> in_use (buffers p ! i) \<and> length (buffers p') = length (buffers p)
          \<or> i = length (buffers p) \<and> length (buffers p') = Suc (length (buffers p)))
       \<and> in_use (buffers p' ! i)
       \<and> (\<forall>j. j < length (buffers p) \<and> j \<noteq> i \<longrightarrow> buffers p' ! j = buffers p ! j)"
proof (cases x)
  case (Acquire y a ps)
  with assms have "GetFreeBuffer y a ps p = (Some i, p')" by simp
  then show ?thesis by (rule GetFreeBuffer_Some)
next
  case (AcquireLate y a ps)
  with assms have "GetFreeBuffer_new y a ps p = (Some i, p')" by simp
  from GetFreeBuffer_new_Some[OF this] show ?thesis by auto
next
  case (Bind k args f)
  with assms show ?thesis by simp
next
  case (Release k)
  with assms show ?thesis by simp
qed

lemma acquired_None:
  assumes "acquired x p = (None, p')"
  shows "p' = p"
proof (cases x)
  case (Acquire y a ps)
  with assms have "GetFreeBuffer y a ps p = (None, p')" by simp
  then show ?thesis by (rule GetFreeBuffer_None)
next
  case (AcquireLate y a ps)
  with assms have "GetFreeBuffer_new y a ps p = (None, p')" by simp
  then show ?thesis by (rule GetFreeBuffer_new_None)
next
  case (Bind k args f)
  with assms show ?thesis by simp
next
  case (Release k)
  with assms show ?thesis by simp
qed

lemma pool_step_acquire:
  assumes "x = Acquire y a ps \<or> x = AcquireLate y a ps"
  shows "pool_step x s =
     (case acquired x (pool s) of
        (Some i, p') \<Rightarrow> Some \<lparr> pool = p', live = i # live s \<rparr>
      | (None, p') \<Rightarrow> Some \<lparr> pool = p', live = live s \<rparr>)"
  using assms by (elim disjE) simp_all

lemma Realloc_Inr:
  assumes "Realloc f args i p = Inr (ok, p')"
  shows "length (buffers p') = length (buffers p) \<and>
         (\<forall>j < length (buffers p). in_use (buffers p' ! j) = in_use (buffers p ! j))"
  using assms
  by (auto simp: Realloc_def Let_def nth_list_update split: if_splits prod.splits)

lemma ReturnUnusedBuffer_Inr:
  assumes "ReturnUnusedBuffer i p = Inr p'"
  shows "i < length (buffers p) \<and> in_use (buffers p ! i) \<and>
         length (buffers p') = length (buffers p) \<and> \<not> in_use (buffers p' ! i) \<and>
         (\<forall>j < length (buffers p). j \<noteq> i \<longrightarrow> buffers p' ! j = buffers p ! j)"
  using assms
  by (auto simp: ReturnUnusedBuffer_def Let_def nth_list_update split: if_splits)

lemma pool_step_acquired_None:
  assumes "pool_inv s" "pool_step x s = Some s'"
    and x: "x = Acquire y a ps \<or> x = AcquireLate y a ps"
    and G: "acquired x (pool s) = (None, p')"
  shows "pool_inv s'"
proof -
  from G have "p' = pool s" by (rule acquired_None)
  with assms(2) G have "s' = \<lparr> pool = pool s, live = live s \<rparr>"
    by (simp add: pool_step_acquire[OF x])
  then have "pool s' = pool s" "live s' = live s" by simp_all
  with assms(1) show ?thesis by (simp add: pool_inv_def)
qed

lemma pool_step_acquired_Some:
  assumes "pool_inv s" "pool_step x s = Some s'"
    and x: "x = Acquire y a ps \<or> x = AcquireLate y a ps"
    and G: "acquired x (pool s) = (Some i, p')"
  shows "pool_inv s'"
proof -
  from assms(1) have d: "distinct (live s)"
    and l: "\<And>j. j \<in> set (live s) \<longleftrightarrow>
              j < length (buffers (pool s)) \<and> in_use (buffers (pool s) ! j)"
    by (simp_all add: pool_inv_def)
  from G assms(2) have s': "s' = \<lparr> pool = p', live = i # live s \<rparr>"
    by (simp add: pool_step_acquire[OF x])
  note G' = acquired_Some[OF G]
  from G' have g1:
    "i < length (buffers (pool s)) \<and> \<not> in_use (buffers (pool s) ! i) \<and>
       length (buffers p') = length (buffers (pool s))
     \<or> i = length (buffers (pool s)) \<and> length (buffers p') = Suc (length (buffers (pool s)))"
    by (rule conjunct1)
  from G' have g2: "in_use (buffers p' ! i)"
    by (elim conjE)
  from G' have g3: "buffers p' ! j = buffers (pool s) ! j"
    if "j < length (buffers (pool s))" "j \<noteq> i" for j
    using that by (elim conjE) simp
  from g1 l[of i] have ni: "i \<notin> set (live s)" by auto
  have J: "j \<in> set (i # live s) \<longleftrightarrow> j < length (buffers p') \<and> in_use (buffers p' ! j)" for j
  proof (cases "j = i")
    case True
    with g1 g2 show ?thesis by auto
  next
    case False
    show ?thesis
    proof (cases "j < length (buffers (pool s))")
      case True
      with False g3 have "buffers p' ! j = buffers (pool s) ! j" by blast
      with True False g1 l[of j] show ?thesis by auto
    next
      case F2: False
      with False g1 l[of j] show ?thesis by auto
    qed
  qed
  have S: "set (i # live s) = {j. j < length (buffers p') \<and> in_use (buffers p' ! j)}"
    by (rule set_eqI) (simp only: mem_Collect_eq J)
  have "pool s' = p'" "live s' = i # live s" using s' by simp_all
  then show ?thesis unfolding pool_inv_def using ni d S by simp
qed

lemma pool_step_acquire_inv:
  assumes "pool_inv s" "pool_step x s = Some s'"
    and x: "x = Acquire y a ps \<or> x = AcquireLate y a ps"
  shows "pool_inv s'"
proof -
  obtain r p' where G: "acquired x (pool s) = (r, p')"
    by (cases "acquired x (pool s)")
  show ?thesis
  proof (cases r)
    case None
    with G have "acquired x (pool s) = (None, p')" by simp
    with assms show ?thesis by (rule pool_step_acquired_None)
  next
    case (Some i)
    with G have "acquired x (pool s) = (Some i, p')" by simp
    with assms show ?thesis by (rule pool_step_acquired_Some)
  qed
qed

lemma pool_step_Bind:
  assumes "pool_inv s" "pool_step (Bind i args f) s = Some s'"
  shows "pool_inv s'"
proof -
  from assms(1) have d: "distinct (live s)"
    and l: "\<And>j. j \<in> set (live s) \<longleftrightarrow>
              j < length (buffers (pool s)) \<and> in_use (buffers (pool s) ! j)"
    by (simp_all add: pool_inv_def)
  from assms(2) obtain ok p' where r: "Realloc f args i (pool s) = Inr (ok, p')"
    and s': "s' = \<lparr> pool = p', live = live s \<rparr>"
    by (auto split: if_splits sum.splits)
  note R = Realloc_Inr[OF r]
  from R have len: "length (buffers p') = length (buffers (pool s))" by (rule conjunct1)
  from R have same: "in_use (buffers p' ! j) = in_use (buffers (pool s) ! j)"
    if "j < length (buffers (pool s))" for j
    using that by (elim conjE) simp
  have J: "j \<in> set (live s) \<longleftrightarrow> j < length (buffers p') \<and> in_use (buffers p' ! j)" for j
    using l[of j] len same[of j] by auto
  have S: "set (live s) = {j. j < length (buffers p') \<and> in_use (buffers p' ! j)}"
    by (rule set_eqI) (simp only: mem_Collect_eq J)
  have "pool s' = p'" "live s' = live s" using s' by simp_all
  then show ?thesis unfolding pool_inv_def using d S by simp
qed

lemma pool_step_Release:
  assumes "pool_inv s" "pool_step (Release i) s = Some s'"
  shows "pool_inv s'"
proof -
  from assms(1) have d: "distinct (live s)"
    and l: "\<And>j. j \<in> set (live s) \<longleftrightarrow>
              j < length (buffers (pool s)) \<and> in_use (buffers (pool s) ! j)"
    by (simp_all add: pool_inv_def)
  from assms(2) obtain p' where r: "ReturnUnusedBuffer i (pool s) = Inr p'"
    and s': "s' = \<lparr> pool = p', live = removeAll i (live s) \<rparr>"
    by (auto split: if_splits sum.splits)
  note R = ReturnUnusedBuffer_Inr[OF r]
  from R have len: "length (buffers p') = length (buffers (pool s))"
    by (elim conjE)
  from R have ni: "\<not> in_use (buffers p' ! i)"
    by (elim conjE)
  from R have oth: "buffers p' ! j = buffers (pool s) ! j"
    if "j < length (buffers (pool s))" "j \<noteq> i" for j
    using that by (elim conjE) simp
  have J: "j \<in> set (removeAll i (live s)) \<longleftrightarrow>
           j < length (buffers p') \<and> in_use (buffers p' ! j)" for j
  proof (cases "j = i")
    case True
    with ni show ?thesis by simp
  next
    case False
    with oth[of j] l[of j] len show ?thesis by auto
  qed
  have S: "set (removeAll i (live s)) = {j. j < length (buffers p') \<and> in_use (buffers p' ! j)}"
    by (rule set_eqI) (simp only: mem_Collect_eq J)
  have "pool s' = p'" "live s' = removeAll i (live s)" using s' by simp_all
  then show ?thesis unfolding pool_inv_def using d S by (simp add: distinct_removeAll)
qed

lemma pool_step_inv:
  assumes "pool_inv s" "pool_step x s = Some s'"
  shows "pool_inv s'"
proof (cases x)
  case (Acquire y a ps)
  then have "x = Acquire y a ps \<or> x = AcquireLate y a ps" by simp
  with assms show ?thesis by (rule pool_step_acquire_inv)
next
  case (AcquireLate y a ps)
  then have "x = Acquire y a ps \<or> x = AcquireLate y a ps" by simp
  with assms show ?thesis by (rule pool_step_acquire_inv)
next
  case (Bind i args f)
  with assms(2) have "pool_step (Bind i args f) s = Some s'" by simp
  with assms(1) show ?thesis by (rule pool_step_Bind)
next
  case (Release i)
  with assms(2) have "pool_step (Release i) s = Some s'" by simp
  with assms(1) show ?thesis by (rule pool_step_Release)
qed

lemma pool_run_inv:
  "pool_inv s \<Longrightarrow> pool_run xs s = Some s' \<Longrightarrow> pool_inv s'"
proof (induction xs arbitrary: s)
  case Nil
  then show ?case by simp
next
  case (Cons x xs)
  from Cons.prems(2) obtain s1 where 1: "pool_step x s = Some s1" and 2: "pool_run xs s1 = Some s'"
    by (auto split: option.splits)
  from pool_step_inv[OF Cons.prems(1) 1] have "pool_inv s1" .
  then show ?case using 2 by (rule Cons.IH)
qed

lemma pool_inv_empty: "pool_inv empty_pool"
  by (simp add: pool_inv_def empty_pool_def)

lemma first_free_exists:
  "i < length bs \<Longrightarrow> \<not> in_use (bs ! i) \<Longrightarrow> \<exists>k\<le>i. first_free bs = Some k"
proof (induction bs arbitrary: i)
  case Nil
  then show ?case by simp
next
  case (Cons b bs)
  show ?case
  proof (cases i)
    case 0
    with Cons.prems show ?thesis by simp
  next
    case (Suc j)
    with Cons.prems have "j < length bs" "\<not> in_use (bs ! j)" by simp_all
    from Cons.IH[OF this] obtain k where "k \<le> j" "first_free bs = Some k" by blast
    with Suc show ?thesis by (cases "in_use b") auto
  qed
qed

lemma ReturnUnusedBuffer_eq:
  assumes i: "i < length (buffers p)"
  shows "ReturnUnusedBuffer i p =
      (if in_use (buffers p ! i)
       then Inr \<lparr> buffers = (buffers p)[i := (buffers p ! i)
                     \<lparr>in_use := False, buffer_private_data_valid := False\<rparr>],
                  release_calls = release_calls p @
                     (if buffer_private_data_valid (buffers p ! i)
                      then [buffer_private_data (buffers p ! i)] else []) \<rparr>
       else Inl AssertionFailed)"
proof (cases "in_use (buffers p ! i)")
  case False
  with i show ?thesis by (simp add: ReturnUnusedBuffer_def)
next
  case u: True
  let ?b = "(buffers p ! i)\<lparr>in_use := False, buffer_private_data_valid := False\<rparr>"
  let ?p' = "\<lparr> buffers = (buffers p)[i := ?b],
              release_calls = release_calls p @
                (if buffer_private_data_valid (buffers p ! i)
                 then [buffer_private_data (buffers p ! i)] else []) \<rparr>"
  have r: "ReturnUnusedBuffer i p = Inr ?p'"
  proof (cases "buffer_private_data_valid (buffers p ! i)")
    case True
    with i u show ?thesis by (simp add: ReturnUnusedBuffer_def Let_def)
  next
    case False
    then have eq: "(buffers p ! i)\<lparr>in_use := False\<rparr> = ?b" by simp
    have "ReturnUnusedBuffer i p =
        Inr (p\<lparr>buffers := (buffers p)[i := (buffers p ! i)\<lparr>in_use := False\<rparr>]\<rparr>)"
      using False i u by (simp add: ReturnUnusedBuffer_def Let_def)
    also have "\<dots> = Inr ?p'" using False by (simp only: eq[symmetric]) simp
    finally show ?thesis .
  qed
  with u show ?thesis by simp
qed

subsection \<open>Mutual exclusion on \<open>in_use\<close>\<close>

text \<open>
  Claim C5. After any sequence of pool operations, started on the empty pool, the held
  handles are pairwise distinct and are exactly the buffers whose \<open>in_use\<close> flag is set.
  A handle returned by the next acquisition is not among the held ones: the buffer it
  names was not in use (or did not exist yet) before the call and is in use after it. The
  only operation that takes a buffer from in use to not in use is the release of that
  buffer. This holds also when the two halves of a \<open>GetFreeBuffer\<close> call are separated
  by other threads' operations (\<open>AcquireLate\<close>).
\<close>

theorem GetFreeBuffer_mutual_exclusion:
  assumes run: "pool_run ops empty_pool = Some s"
    and step: "pool_step x s = Some s'"
  shows "distinct (live s') \<and>
    set (live s') = {j. j < length (buffers (pool s')) \<and> in_use (buffers (pool s') ! j)} \<and>
    (\<forall>i. fst (acquired x (pool s)) = Some i \<longrightarrow>
       i \<notin> set (live s) \<and>
       (i < length (buffers (pool s)) \<longrightarrow> \<not> in_use (buffers (pool s) ! i)) \<and>
       in_use (buffers (pool s') ! i)) \<and>
    (\<forall>j < length (buffers (pool s)).
       in_use (buffers (pool s) ! j) \<and> \<not> in_use (buffers (pool s') ! j) \<longrightarrow> x = Release j)"
proof -
  have inv: "pool_inv s" using pool_inv_empty run by (rule pool_run_inv)
  then have inv': "pool_inv s'" using step by (rule pool_step_inv)
  from inv have l: "\<And>j. j \<in> set (live s) \<longleftrightarrow>
              j < length (buffers (pool s)) \<and> in_use (buffers (pool s) ! j)"
    by (simp add: pool_inv_def)
  have acq: "pool s' = p' \<and> (r = None \<longrightarrow> p' = pool s)"
    if x: "x = Acquire y a ps \<or> x = AcquireLate y a ps"
      and G: "acquired x (pool s) = (r, p')" for y a ps r p'
  proof (cases r)
    case None
    with G have G0: "acquired x (pool s) = (None, p')" by simp
    then have "p' = pool s" by (rule acquired_None)
    moreover from G0 step have "pool s' = p'" by (auto simp: pool_step_acquire[OF x])
    ultimately show ?thesis by simp
  next
    case (Some i)
    with G step have "pool s' = p'" by (auto simp: pool_step_acquire[OF x])
    with Some show ?thesis by simp
  qed
  have A: "i \<notin> set (live s) \<and>
       (i < length (buffers (pool s)) \<longrightarrow> \<not> in_use (buffers (pool s) ! i)) \<and>
       in_use (buffers (pool s') ! i)"
    if G: "fst (acquired x (pool s)) = Some i" for i
  proof -
    obtain p' where G1: "acquired x (pool s) = (Some i, p')"
      using G by (cases "acquired x (pool s)") simp
    have "\<exists>y a ps. x = Acquire y a ps \<or> x = AcquireLate y a ps"
      using G1 by (cases x) simp_all
    then obtain y a ps where x: "x = Acquire y a ps \<or> x = AcquireLate y a ps" by blast
    from acq[OF x G1] have ps': "pool s' = p'" by simp
    note G' = acquired_Some[OF G1]
    from G' have g1:
      "i < length (buffers (pool s)) \<and> \<not> in_use (buffers (pool s) ! i) \<and>
         length (buffers p') = length (buffers (pool s))
       \<or> i = length (buffers (pool s)) \<and> length (buffers p') = Suc (length (buffers (pool s)))"
      by (rule conjunct1)
    from G' have g2: "in_use (buffers p' ! i)" by (elim conjE)
    from g1 l[of i] have "i \<notin> set (live s)" by auto
    moreover from g1 have "i < length (buffers (pool s)) \<longrightarrow> \<not> in_use (buffers (pool s) ! i)"
      by auto
    ultimately show ?thesis using g2 ps' by simp
  qed
  have B1: False
    if x: "x = Acquire y a ps \<or> x = AcquireLate y a ps"
      and j: "j < length (buffers (pool s))" and u: "in_use (buffers (pool s) ! j)"
      and n: "\<not> in_use (buffers (pool s') ! j)" for y a ps j
  proof -
    obtain r p' where G: "acquired x (pool s) = (r, p')"
      by (cases "acquired x (pool s)")
    show ?thesis
    proof (cases r)
      case None
      with acq[OF x G] have "pool s' = pool s" by simp
      with u n show ?thesis by simp
    next
      case (Some i)
      with G have G1: "acquired x (pool s) = (Some i, p')" by simp
      from acq[OF x G] have ps': "pool s' = p'" by simp
      note G' = acquired_Some[OF G1]
      from G' have g2: "in_use (buffers p' ! i)" by (elim conjE)
      from G' have g3: "buffers p' ! j = buffers (pool s) ! j" if "j \<noteq> i"
        using that j by (elim conjE) simp
      from g2 g3 u n ps' show ?thesis by (cases "j = i") simp_all
    qed
  qed
  have B: "x = Release j"
    if j: "j < length (buffers (pool s))" and u: "in_use (buffers (pool s) ! j)"
      and n: "\<not> in_use (buffers (pool s') ! j)" for j
  proof (cases x)
    case (Acquire y a ps)
    then have "x = Acquire y a ps \<or> x = AcquireLate y a ps" by simp
    from B1[OF this j u n] show ?thesis ..
  next
    case (AcquireLate y a ps)
    then have "x = Acquire y a ps \<or> x = AcquireLate y a ps" by simp
    from B1[OF this j u n] show ?thesis ..
  next
    case (Bind i args f)
    with step obtain ok p' where r: "Realloc f args i (pool s) = Inr (ok, p')"
      and s': "s' = \<lparr> pool = p', live = live s \<rparr>"
      by (auto split: if_splits sum.splits)
    from Realloc_Inr[OF r] j have "in_use (buffers p' ! j) = in_use (buffers (pool s) ! j)"
      by (elim conjE) simp
    moreover from s' have "pool s' = p'" by simp
    ultimately show ?thesis using u n by simp
  next
    case (Release i)
    with step obtain p' where r: "ReturnUnusedBuffer i (pool s) = Inr p'"
      and s': "s' = \<lparr> pool = p', live = removeAll i (live s) \<rparr>"
      by (auto split: if_splits sum.splits)
    from s' have ps': "pool s' = p'" by simp
    from ReturnUnusedBuffer_Inr[OF r] j have "buffers p' ! j = buffers (pool s) ! j" if "j \<noteq> i"
      using that by (elim conjE) simp
    with u n ps' have "j = i" by (cases "j = i") simp_all
    with Release show ?thesis by simp
  qed
  from inv' have "distinct (live s')"
    and "set (live s') = {j. j < length (buffers (pool s')) \<and> in_use (buffers (pool s') ! j)}"
    by (simp_all add: pool_inv_def)
  moreover from A have "\<forall>i. fst (acquired x (pool s)) = Some i \<longrightarrow>
       i \<notin> set (live s) \<and>
       (i < length (buffers (pool s)) \<longrightarrow> \<not> in_use (buffers (pool s) ! i)) \<and>
       in_use (buffers (pool s') ! i)"
    by (intro allI impI)
  moreover from B have "\<forall>j < length (buffers (pool s)).
       in_use (buffers (pool s) ! j) \<and> \<not> in_use (buffers (pool s') ! j) \<longrightarrow> x = Release j"
    by (intro allI impI, elim conjE) (rule B)
  ultimately show ?thesis by (intro conjI)
qed

theorem GetFreeBuffer_mutual_exclusion_witness:
  "pool_run [Acquire () True True, Acquire () True True,
             Bind 0 example_args (\<lambda>a y pd. (True, y, 7))] empty_pool
     = Some \<lparr> pool = \<lparr> buffers = [(new_RefCountedBuffer ())
                 \<lparr>in_use := True, buffer_private_data := 7, buffer_private_data_valid := True\<rparr>,
                 (new_RefCountedBuffer ())\<lparr>in_use := True\<rparr>],
               release_calls = [] \<rparr>, live = [1, 0] \<rparr> \<and>
   pool_step (Release 0)
       \<lparr> pool = \<lparr> buffers = [(new_RefCountedBuffer ())
                 \<lparr>in_use := True, buffer_private_data := 7, buffer_private_data_valid := True\<rparr>,
                 (new_RefCountedBuffer ())\<lparr>in_use := True\<rparr>],
               release_calls = [] \<rparr>, live = [1, 0] \<rparr>
     = Some \<lparr> pool = \<lparr> buffers = [(new_RefCountedBuffer ())\<lparr>buffer_private_data := 7\<rparr>,
                                   (new_RefCountedBuffer ())\<lparr>in_use := True\<rparr>],
                        release_calls = [7] \<rparr>, live = [1] \<rparr> \<and>
   pool_run [Acquire () True True, Acquire () True True,
             Bind 0 example_args (\<lambda>a y pd. (True, y, 7)), Release 0] empty_pool
     = Some \<lparr> pool = \<lparr> buffers = [(new_RefCountedBuffer ())\<lparr>buffer_private_data := 7\<rparr>,
                                   (new_RefCountedBuffer ())\<lparr>in_use := True\<rparr>],
                        release_calls = [7] \<rparr>, live = [1] \<rparr> \<and>
   pool_step (Acquire () True True)
       \<lparr> pool = \<lparr> buffers = [(new_RefCountedBuffer ())\<lparr>buffer_private_data := 7\<rparr>,
                              (new_RefCountedBuffer ())\<lparr>in_use := True\<rparr>],
                  release_calls = [7] \<rparr>, live = [1] \<rparr>
     = Some \<lparr> pool = \<lparr> buffers = [(new_RefCountedBuffer ())
                                      \<lparr>buffer_private_data := 7, in_use := True\<rparr>,
                                   (new_RefCountedBuffer ())\<lparr>in_use := True\<rparr>],
                        release_calls = [7] \<rparr>, live = [0, 1] \<rparr> \<and>
   fst (acquired (Acquire () True True)
          \<lparr> buffers = [(new_RefCountedBuffer ())\<lparr>buffer_private_data := 7\<rparr>,
                       (new_RefCountedBuffer ())\<lparr>in_use := True\<rparr>],
            release_calls = [7] \<rparr>) = Some 0 \<and>
   (0::nat) \<notin> set [1::nat] \<and> distinct [0::nat, 1] \<and> distinct [1::nat]"
proof -
  let ?s0 = "\<lparr> pool = \<lparr> buffers = [(new_RefCountedBuffer ())
                 \<lparr>in_use := True, buffer_private_data := 7, buffer_private_data_valid := True\<rparr>,
                 (new_RefCountedBuffer ())\<lparr>in_use := True\<rparr>],
               release_calls = [] \<rparr>, live = [1, 0] \<rparr> :: unit pool_sys"
  let ?s1 = "\<lparr> pool = \<lparr> buffers = [(new_RefCountedBuffer ())\<lparr>buffer_private_data := 7\<rparr>,
                                   (new_RefCountedBuffer ())\<lparr>in_use := True\<rparr>],
                        release_calls = [7] \<rparr>, live = [1] \<rparr> :: unit pool_sys"
  let ?s2 = "\<lparr> pool = \<lparr> buffers = [(new_RefCountedBuffer ())
                                      \<lparr>buffer_private_data := 7, in_use := True\<rparr>,
                                   (new_RefCountedBuffer ())\<lparr>in_use := True\<rparr>],
                        release_calls = [7] \<rparr>, live = [0, 1] \<rparr> :: unit pool_sys"
  have run0: "pool_run [Acquire () True True, Acquire () True True,
               Bind 0 example_args (\<lambda>a y pd. (True, y, 7))] empty_pool = Some ?s0"
    by (simp add: empty_pool_def GetFreeBuffer_def GetFreeBuffer_new_def Realloc_def
        new_RefCountedBuffer_def)
  have step0: "pool_step (Release 0) ?s0 = Some ?s1"
    by (simp add: ReturnUnusedBuffer_def new_RefCountedBuffer_def)
  have run1: "pool_run [Acquire () True True, Acquire () True True,
               Bind 0 example_args (\<lambda>a y pd. (True, y, 7)), Release 0] empty_pool = Some ?s1"
    by (simp add: empty_pool_def GetFreeBuffer_def GetFreeBuffer_new_def Realloc_def
        ReturnUnusedBuffer_def new_RefCountedBuffer_def)
  have step1: "pool_step (Acquire () True True) ?s1 = Some ?s2"
    by (simp add: GetFreeBuffer_def new_RefCountedBuffer_def)
  have acq: "fst (acquired (Acquire () True True) (pool ?s1)) = Some 0"
    by (simp add: GetFreeBuffer_def new_RefCountedBuffer_def)
  from GetFreeBuffer_mutual_exclusion[OF run0 step0] have d1: "distinct [1::nat]" by simp
  from GetFreeBuffer_mutual_exclusion[OF run1 step1] acq
  have d2: "(0::nat) \<notin> set [1::nat] \<and> distinct [0::nat, 1]" by simp
  from acq have acq': "fst (acquired (Acquire () True True)
          \<lparr> buffers = [(new_RefCountedBuffer ())\<lparr>buffer_private_data := 7\<rparr>,
                       (new_RefCountedBuffer ())\<lparr>in_use := True\<rparr>],
            release_calls = [7] \<rparr>) = Some 0" by simp
  from run0 step0 run1 step1 acq' d1 d2 show ?thesis by (intro conjI) simp_all
qed

subsection \<open>Round trip\<close>

text \<open>
  Claim C6. A buffer is acquired, storage is bound to it, its holder writes whatever it
  likes into the per-frame fields, the buffer is released and a later acquisition returns
  the same buffer. Then the buffer is in use, its progress row is \<open>-1\<close>, its frame state
  is \<open>kFrameStateUnknown\<close>, the three HDR-metadata flags are false, and no storage is bound.
\<close>

theorem reacquired_buffer_is_reset:
  assumes acquire: "GetFreeBuffer y1 a1 ps1 p0 = (Some i, p1)"
    and bind: "Realloc f args i p1 = Inr (True, p2)"
    and used: "p2' = p2\<lparr>buffers := (buffers p2)[i := (buffers p2 ! i)
                 \<lparr>progress_row := r, frame_state := fs, hdr_cll_set := h1,
                  hdr_mdcv_set := h2, itut_t35_set := h3\<rparr>]\<rparr>"
    and release: "ReturnUnusedBuffer i p2' = Inr p3"
    and reacquire: "GetFreeBuffer y2 a2 ps2 p3 = (Some i, p4)"
  shows "in_use (buffers p4 ! i) \<and> progress_row (buffers p4 ! i) = -1 \<and>
         frame_state (buffers p4 ! i) = kFrameStateUnknown \<and>
         \<not> hdr_cll_set (buffers p4 ! i) \<and> \<not> hdr_mdcv_set (buffers p4 ! i) \<and>
         \<not> itut_t35_set (buffers p4 ! i) \<and> \<not> buffer_private_data_valid (buffers p4 ! i)"
proof -
  note R = ReturnUnusedBuffer_Inr[OF release]
  from R have i2: "i < length (buffers p2')" by (elim conjE)
  from R have len: "length (buffers p3) = length (buffers p2')" by (elim conjE)
  from i2 len have i3: "i < length (buffers p3)" by simp
  from release i2 have nv: "\<not> buffer_private_data_valid (buffers p3 ! i)"
    by (auto simp: ReturnUnusedBuffer_def Let_def split: if_splits)
  show ?thesis
  proof (cases "first_free (buffers p3)")
    case None
    with reacquire have "GetFreeBuffer_new y2 a2 ps2 p3 = (Some i, p4)"
      by (simp add: GetFreeBuffer_def)
    from GetFreeBuffer_new_Some[OF this] have "i = length (buffers p3)" by (rule conjunct1)
    with i3 show ?thesis by simp
  next
    case (Some k)
    with reacquire have k: "k = i"
      and p4: "p4 = p3\<lparr>buffers := (buffers p3)[i := (buffers p3 ! i)
             \<lparr>in_use := True, progress_row := -1, frame_state := kFrameStateUnknown,
              hdr_cll_set := False, hdr_mdcv_set := False, itut_t35_set := False\<rparr>]\<rparr>"
      by (auto simp: GetFreeBuffer_def)
    from p4 i3 nv show ?thesis by simp
  qed
qed

theorem reacquired_buffer_is_reset_witness:
  "GetFreeBuffer () True True \<lparr> buffers = [], release_calls = [] \<rparr>
     = (Some 0, \<lparr> buffers = [(new_RefCountedBuffer ())\<lparr>in_use := True\<rparr>], release_calls = [] \<rparr>) \<and>
   Realloc (\<lambda>a y pd. (True, y, 7)) example_args 0
       \<lparr> buffers = [(new_RefCountedBuffer ())\<lparr>in_use := True\<rparr>], release_calls = [] \<rparr>
     = Inr (True, \<lparr> buffers = [(new_RefCountedBuffer ())
              \<lparr>in_use := True, buffer_private_data := 7, buffer_private_data_valid := True\<rparr>],
            release_calls = [] \<rparr>) \<and>
   ReturnUnusedBuffer 0
       \<lparr> buffers = [(new_RefCountedBuffer ())
              \<lparr>in_use := True, buffer_private_data := 7, buffer_private_data_valid := True,
               progress_row := 63, frame_state := kFrameStateDecoded, hdr_cll_set := True,
               hdr_mdcv_set := True, itut_t35_set := True\<rparr>], release_calls = [] \<rparr>
     = Inr \<lparr> buffers = [(new_RefCountedBuffer ())
              \<lparr>buffer_private_data := 7, progress_row := 63, frame_state := kFrameStateDecoded,
               hdr_cll_set := True, hdr_mdcv_set := True, itut_t35_set := True\<rparr>],
            release_calls = [7] \<rparr> \<and>
   GetFreeBuffer () True True
       \<lparr> buffers = [(new_RefCountedBuffer ())
              \<lparr>buffer_private_data := 7, progress_row := 63, frame_state := kFrameStateDecoded,
               hdr_cll_set := True, hdr_mdcv_set := True, itut_t35_set := True\<rparr>],
         release_calls = [7] \<rparr>
     = (Some 0, \<lparr> buffers = [(new_RefCountedBuffer ())\<lparr>buffer_private_data := 7, in_use := True\<rparr>],
                 release_calls = [7] \<rparr>) \<and>
   in_use ((new_RefCountedBuffer ())\<lparr>buffer_private_data := 7, in_use := True\<rparr>) \<and>
   progress_row ((new_RefCountedBuffer ())\<lparr>buffer_private_data := 7, in_use := True\<rparr>) = -1 \<and>
   frame_state ((new_RefCountedBuffer ())\<lparr>buffer_private_data := 7, in_use := True\<rparr>)
     = kFrameStateUnknown \<and>
   \<not> hdr_cll_set ((new_RefCountedBuffer ())\<lparr>buffer_private_data := 7, in_use := True\<rparr>)"
proof -
  let ?p0 = "\<lparr> buffers = [], release_calls = [] \<rparr> :: unit BufferPool"
  let ?p1 = "\<lparr> buffers = [(new_RefCountedBuffer ())\<lparr>in_use := True\<rparr>], release_calls = [] \<rparr>"
  let ?p2 = "\<lparr> buffers = [(new_RefCountedBuffer ())
              \<lparr>in_use := True, buffer_private_data := 7, buffer_private_data_valid := True\<rparr>],
            release_calls = [] \<rparr>"
  let ?p2' = "\<lparr> buffers = [(new_RefCountedBuffer ())
              \<lparr>in_use := True, buffer_private_data := 7, buffer_private_data_valid := True,
               progress_row := 63, frame_state := kFrameStateDecoded, hdr_cll_set := True,
               hdr_mdcv_set := True, itut_t35_set := True\<rparr>], release_calls = [] \<rparr>"
  let ?p3 = "\<lparr> buffers = [(new_RefCountedBuffer ())
              \<lparr>buffer_private_data := 7, progress_row := 63, frame_state := kFrameStateDecoded,
               hdr_cll_set := True, hdr_mdcv_set := True, itut_t35_set := True\<rparr>],
            release_calls = [7] \<rparr>"
  let ?p4 = "\<lparr> buffers = [(new_RefCountedBuffer ())\<lparr>buffer_private_data := 7, in_use := True\<rparr>],
                 release_calls = [7] \<rparr>"
  have h1: "GetFreeBuffer () True True ?p0 = (Some 0, ?p1)"
    by (simp add: GetFreeBuffer_def GetFreeBuffer_new_def new_RefCountedBuffer_def)
  have h2: "Realloc (\<lambda>a y pd. (True, y, 7)) example_args 0 ?p1 = Inr (True, ?p2)"
    by (simp add: Realloc_def new_RefCountedBuffer_def)
  have h3: "?p2' = ?p2\<lparr>buffers := (buffers ?p2)[0 := (buffers ?p2 ! 0)
                 \<lparr>progress_row := 63, frame_state := kFrameStateDecoded, hdr_cll_set := True,
                  hdr_mdcv_set := True, itut_t35_set := True\<rparr>]\<rparr>"
    by (simp add: new_RefCountedBuffer_def)
  have h4: "ReturnUnusedBuffer 0 ?p2' = Inr ?p3"
    by (simp add: ReturnUnusedBuffer_def new_RefCountedBuffer_def)
  have h5: "GetFreeBuffer () True True ?p3 = (Some 0, ?p4)"
    by (simp add: GetFreeBuffer_def new_RefCountedBuffer_def)
  from reacquired_buffer_is_reset[OF h1 h2 h3 h4 h5]
  have "in_use ((new_RefCountedBuffer ())\<lparr>buffer_private_data := 7, in_use := True\<rparr>) \<and>
   progress_row ((new_RefCountedBuffer ())\<lparr>buffer_private_data := 7, in_use := True\<rparr>) = -1 \<and>
   frame_state ((new_RefCountedBuffer ())\<lparr>buffer_private_data := 7, in_use := True\<rparr>)
     = kFrameStateUnknown \<and>
   \<not> hdr_cll_set ((new_RefCountedBuffer ())\<lparr>buffer_private_data := 7, in_use := True\<rparr>)"
    by simp
  with h1 h2 h4 h5 show ?thesis by (intro conjI) simp_all
qed

subsection \<open>Release\<close>

text \<open>
  Claim C7. \<open>ReturnUnusedBuffer\<close> on a buffer of the pool fails its assertion when the
  buffer is not in use. Otherwise it clears \<open>in_use\<close>; when storage was bound it calls the
  release callback once with the buffer's private data and clears the bound flag, and when
  no storage was bound it makes no call and the flag stays false. The buffer stays in the
  vector with its other fields as they were, and every later \<open>GetFreeBuffer\<close> on the
  resulting pool hands out an existing buffer, at or before that position, without growing
  the vector.
\<close>

theorem ReturnUnusedBuffer_contract:
  assumes i: "i < length (buffers p)"
  shows "ReturnUnusedBuffer i p =
      (if in_use (buffers p ! i)
       then Inr \<lparr> buffers = (buffers p)[i := (buffers p ! i)
                     \<lparr>in_use := False, buffer_private_data_valid := False\<rparr>],
                  release_calls = release_calls p @
                     (if buffer_private_data_valid (buffers p ! i)
                      then [buffer_private_data (buffers p ! i)] else []) \<rparr>
       else Inl AssertionFailed) \<and>
    (\<forall>p'. ReturnUnusedBuffer i p = Inr p' \<longrightarrow>
       (\<exists>k\<le>i. \<forall>y alloc_ok push_ok. \<exists>p''.
          GetFreeBuffer y alloc_ok push_ok p' = (Some k, p'') \<and>
          length (buffers p'') = length (buffers p)))"
proof (intro conjI allI impI)
  show "ReturnUnusedBuffer i p =
      (if in_use (buffers p ! i)
       then Inr \<lparr> buffers = (buffers p)[i := (buffers p ! i)
                     \<lparr>in_use := False, buffer_private_data_valid := False\<rparr>],
                  release_calls = release_calls p @
                     (if buffer_private_data_valid (buffers p ! i)
                      then [buffer_private_data (buffers p ! i)] else []) \<rparr>
       else Inl AssertionFailed)"
    using i by (rule ReturnUnusedBuffer_eq)
next
  fix p'
  assume r: "ReturnUnusedBuffer i p = Inr p'"
  note R = ReturnUnusedBuffer_Inr[OF r]
  from R have len: "length (buffers p') = length (buffers p)" by (elim conjE)
  from R have "\<not> in_use (buffers p' ! i)" by (elim conjE)
  moreover from i len have "i < length (buffers p')" by simp
  ultimately obtain k where k: "k \<le> i" and ff: "first_free (buffers p') = Some k"
    using first_free_exists by blast
  have "\<exists>p''. GetFreeBuffer y a ps p' = (Some k, p'') \<and>
              length (buffers p'') = length (buffers p)" for y a ps
    using ff len by (simp add: GetFreeBuffer_def)
  with k show "\<exists>k\<le>i. \<forall>y alloc_ok push_ok. \<exists>p''.
          GetFreeBuffer y alloc_ok push_ok p' = (Some k, p'') \<and>
          length (buffers p'') = length (buffers p)" by blast
qed

theorem ReturnUnusedBuffer_contract_witness:
  "ReturnUnusedBuffer 0 \<lparr> buffers = [(new_RefCountedBuffer ())
       \<lparr>in_use := True, buffer_private_data := 7, buffer_private_data_valid := True\<rparr>],
       release_calls = [] \<rparr>
     = Inr \<lparr> buffers = [(new_RefCountedBuffer ())\<lparr>buffer_private_data := 7\<rparr>],
             release_calls = [7] \<rparr> \<and>
   ReturnUnusedBuffer 0 \<lparr> buffers = [(new_RefCountedBuffer ())\<lparr>in_use := True\<rparr>],
       release_calls = [] \<rparr>
     = Inr \<lparr> buffers = [new_RefCountedBuffer ()], release_calls = [] \<rparr> \<and>
   ReturnUnusedBuffer 0 \<lparr> buffers = [new_RefCountedBuffer ()], release_calls = [] \<rparr>
     = Inl AssertionFailed \<and>
   (\<exists>k\<le>0. \<forall>y alloc_ok push_ok. \<exists>p''.
      GetFreeBuffer y alloc_ok push_ok
        \<lparr> buffers = [(new_RefCountedBuffer ())\<lparr>buffer_private_data := 7\<rparr>],
          release_calls = [7] \<rparr> = (Some k, p'') \<and>
      length (buffers p'') = 1)"
proof -
  let ?p = "\<lparr> buffers = [(new_RefCountedBuffer ())
       \<lparr>in_use := True, buffer_private_data := 7, buffer_private_data_valid := True\<rparr>],
       release_calls = [] \<rparr> :: unit BufferPool"
  let ?q = "\<lparr> buffers = [(new_RefCountedBuffer ())\<lparr>in_use := True\<rparr>],
       release_calls = [] \<rparr> :: unit BufferPool"
  let ?r = "\<lparr> buffers = [new_RefCountedBuffer ()], release_calls = [] \<rparr> :: unit BufferPool"
  have 1: "0 < length (buffers ?p)" and 2: "0 < length (buffers ?q)"
    and 3: "0 < length (buffers ?r)" by simp_all
  from ReturnUnusedBuffer_contract[OF 1]
  have a: "ReturnUnusedBuffer 0 ?p
      = Inr \<lparr> buffers = [(new_RefCountedBuffer ())\<lparr>buffer_private_data := 7\<rparr>],
              release_calls = [7] \<rparr>"
    by (simp add: new_RefCountedBuffer_def)
  from ReturnUnusedBuffer_contract[OF 1] a
  have b: "\<exists>k\<le>0. \<forall>y alloc_ok push_ok. \<exists>p''.
      GetFreeBuffer y alloc_ok push_ok
        \<lparr> buffers = [(new_RefCountedBuffer ())\<lparr>buffer_private_data := 7\<rparr>],
          release_calls = [7] \<rparr> = (Some k, p'') \<and>
      length (buffers p'') = 1"
    by simp
  from ReturnUnusedBuffer_contract[OF 2]
  have c: "ReturnUnusedBuffer 0 ?q = Inr ?r"
    by (simp add: new_RefCountedBuffer_def)
  from ReturnUnusedBuffer_contract[OF 3]
  have d: "ReturnUnusedBuffer 0 ?r = Inl AssertionFailed"
    by (simp add: new_RefCountedBuffer_def)
  from a b c d show ?thesis by (intro conjI)
qed

subsection \<open>Binding storage\<close>

text \<open>
  Claim C8. \<open>Realloc\<close> on a buffer of the pool fails its assertion when storage is
  already bound. Otherwise it returns what the external allocation returned, and the
  bound flag afterwards is that result: still false after a failure, true after success.
  The fields that \<open>Realloc\<close> itself owns (\<open>in_use\<close> and the per-frame fields), the other
  buffers and the log of release calls are unchanged; \<open>yuv_buffer_\<close> and
  \<open>buffer_private_data_\<close>, which are handed to the external function by pointer, hold
  what it left in them. So \<open>Realloc\<close> itself writes nothing on the failure path, and when
  the external function fails without having changed these two (a failure without side
  effects), the call returns \<open>false\<close> and the pool is exactly as it was.
\<close>

theorem Realloc_contract:
  assumes i: "i < length (buffers p)"
    and f: "f args (yuv_buffer (buffers p ! i)) (buffer_private_data (buffers p ! i)) = (ok, y', pd')"
  shows "Realloc f args i p =
    (if buffer_private_data_valid (buffers p ! i) then Inl AssertionFailed
     else Inr (ok, p\<lparr>buffers := (buffers p)[i := (buffers p ! i)
             \<lparr>yuv_buffer := y', buffer_private_data := pd',
              buffer_private_data_valid := ok\<rparr>]\<rparr>)) \<and>
    (\<not> buffer_private_data_valid (buffers p ! i) \<and> \<not> ok \<and>
     y' = yuv_buffer (buffers p ! i) \<and> pd' = buffer_private_data (buffers p ! i) \<longrightarrow>
     Realloc f args i p = Inr (False, p))"
proof (cases "buffer_private_data_valid (buffers p ! i)")
  case True
  with i show ?thesis by (simp add: Realloc_def)
next
  case nv: False
  show ?thesis
  proof (cases ok)
    case True
    with i f nv show ?thesis by (simp add: Realloc_def)
  next
    case False
    from nv have eq: "(buffers p ! i)\<lparr>yuv_buffer := y', buffer_private_data := pd'\<rparr> =
      (buffers p ! i)\<lparr>yuv_buffer := y', buffer_private_data := pd',
                       buffer_private_data_valid := False\<rparr>"
      by simp
    have r: "Realloc f args i p = Inr (False, p\<lparr>buffers := (buffers p)[i := (buffers p ! i)
             \<lparr>yuv_buffer := y', buffer_private_data := pd'\<rparr>]\<rparr>)"
      using False i f nv by (simp add: Realloc_def)
    then have "Realloc f args i p = Inr (False, p\<lparr>buffers := (buffers p)[i := (buffers p ! i)
             \<lparr>yuv_buffer := y', buffer_private_data := pd', buffer_private_data_valid := False\<rparr>]\<rparr>)"
      by (simp only: eq[symmetric])
    moreover have "Realloc f args i p = Inr (False, p)"
      if "y' = yuv_buffer (buffers p ! i)" "pd' = buffer_private_data (buffers p ! i)"
    proof -
      from that have "(buffers p ! i)\<lparr>yuv_buffer := y', buffer_private_data := pd'\<rparr> =
          buffers p ! i"
        by simp
      with r show ?thesis by simp
    qed
    ultimately show ?thesis using False nv by simp
  qed
qed

theorem Realloc_contract_witness:
  "Realloc (\<lambda>a y pd. (False, y, pd)) example_args 0
       \<lparr> buffers = [(new_RefCountedBuffer ())\<lparr>in_use := True\<rparr>], release_calls = [] \<rparr>
     = Inr (False, \<lparr> buffers = [(new_RefCountedBuffer ())\<lparr>in_use := True\<rparr>],
                    release_calls = [] \<rparr>) \<and>
   Realloc (\<lambda>a y pd. (True, y, 7)) example_args 0
       \<lparr> buffers = [(new_RefCountedBuffer ())\<lparr>in_use := True\<rparr>], release_calls = [] \<rparr>
     = Inr (True, \<lparr> buffers = [(new_RefCountedBuffer ())
              \<lparr>in_use := True, buffer_private_data := 7, buffer_private_data_valid := True\<rparr>],
            release_calls = [] \<rparr>) \<and>
   Realloc (\<lambda>a y pd. (True, y, 9)) example_args 0
       \<lparr> buffers = [(new_RefCountedBuffer ())
              \<lparr>in_use := True, buffer_private_data := 7, buffer_private_data_valid := True\<rparr>],
         release_calls = [] \<rparr>
     = Inl AssertionFailed"
proof -
  let ?p = "\<lparr> buffers = [(new_RefCountedBuffer ())\<lparr>in_use := True\<rparr>],
              release_calls = [] \<rparr> :: unit BufferPool"
  let ?q = "\<lparr> buffers = [(new_RefCountedBuffer ())
              \<lparr>in_use := True, buffer_private_data := 7, buffer_private_data_valid := True\<rparr>],
            release_calls = [] \<rparr> :: unit BufferPool"
  have 1: "0 < length (buffers ?p)" and 2: "0 < length (buffers ?q)" by simp_all
  have f1: "(\<lambda>a y pd. (False, y, pd)) example_args (yuv_buffer (buffers ?p ! 0))
              (buffer_private_data (buffers ?p ! 0)) =
            (False, yuv_buffer (buffers ?p ! 0), buffer_private_data (buffers ?p ! 0))"
    by simp
  have f2: "(\<lambda>a y pd. (True, y, 7)) example_args (yuv_buffer (buffers ?p ! 0))
              (buffer_private_data (buffers ?p ! 0)) = (True, (), 7)"
    by simp
  have f3: "(\<lambda>a y pd. (True, y, 9)) example_args (yuv_buffer (buffers ?q ! 0))
              (buffer_private_data (buffers ?q ! 0)) = (True, (), 9)"
    by simp
  have nv: "\<not> buffer_private_data_valid (buffers ?p ! 0)"
    by (simp add: new_RefCountedBuffer_def)
  from Realloc_contract[where f = "\<lambda>a y pd. (False, y, pd)" and args = example_args, OF 1 f1,
      THEN conjunct2] nv
  have a: "Realloc (\<lambda>a y pd. (False, y, pd)) example_args 0 ?p = Inr (False, ?p)"
    by blast
  from Realloc_contract[where f = "\<lambda>a y pd. (True, y, 7)" and args = example_args, OF 1 f2]
  have b: "Realloc (\<lambda>a y pd. (True, y, 7)) example_args 0 ?p = Inr (True, ?q)"
    by (simp add: new_RefCountedBuffer_def)
  from Realloc_contract[where f = "\<lambda>a y pd. (True, y, 9)" and args = example_args, OF 2 f3]
  have c: "Realloc (\<lambda>a y pd. (True, y, 9)) example_args 0 ?q = Inl AssertionFailed"
    by (simp add: new_RefCountedBuffer_def)
  from a b c show ?thesis by (intro conjI)
qed

section \<open>Properties of the CDEF pipeline\<close>

subsection \<open>Copies\<close>










subsection \<open>Blocks that are not skipped\<close>

lemma CopyPixels_loop_fault:
  "CopyPixels_loop m src ss dst ds n y = Inl e \<Longrightarrow> e = InvalidCopySize \<or> e = OverlappingCopy"
proof (induction y arbitrary: m src dst)
  case 0
  then show ?case by simp
next
  case (Suc y)
  show ?case
  proof (cases "memcpy m dst src n")
    case (Inl e')
    with Suc.prems have "e' = e" by simp
    with Inl show ?thesis by (auto simp: memcpy_def split: if_splits)
  next
    case (Inr m')
    with Suc.prems Suc.IH[of m' "src + ss" "dst + ds"] show ?thesis
      by (cases "y = 0") simp_all
  qed
qed

lemma CopyPixels_fault:
  "CopyPixels m src ss dst ds w h px = Inl e \<Longrightarrow> e = InvalidCopySize \<or> e = OverlappingCopy"
  by (auto simp: CopyPixels_def split: if_splits dest: CopyPixels_loop_fault)

lemma cdef_luma_cases:
  "cdef_luma be pf index src stride dy st =
     (if (y_primary_strength pf index OR uv_primary_strength pf index) \<noteq> 0
      then Inr (Some (fst (cdef_direction be (mem st) src stride)),
                st\<lparr>calls := calls st @ [DirectionCall src stride]\<rparr>,
                (if y_primary_strength pf index = 0 then 0
                 else fst (cdef_direction be (mem st) src stride)),
                luma_primary pf index (snd (cdef_direction be (mem st) src stride)),
                y_secondary_strength pf index)
      else Inr (dy, st, 0, 0, y_secondary_strength pf index))"
  by (auto simp: cdef_luma_def Let_def luma_primary_def or_eq_0_iff)

lemma cdef_chroma_cases:
  "cdef_chroma pf index plane dy =
     (if uv_primary_strength pf index = 0 then Inr (0, 0, uv_secondary_strength pf index)
      else case dy of
             None \<Rightarrow> Inl UninitializedRead
           | Some d \<Rightarrow>
               (case uv_direction (subsampling_x pf plane) (subsampling_y pf plane) d of
                  Inl e \<Rightarrow> Inl e
                | Inr direction \<Rightarrow>
                    Inr (direction, uv_primary_strength pf index,
                         uv_secondary_strength pf index)))"
  by (auto simp: cdef_chroma_def Let_def split: option.splits sum.splits)

lemma uv_direction_fault:
  "uv_direction sx sy d = Inl e \<Longrightarrow> e = IndexOutOfRange"
  by (auto simp: uv_direction_def split: if_splits)

lemma cdef_plane_luma_fault:
  "cdef_plane be sc pf index False r rs c cs cstride cbb sbb kPlaneY (dy, st) \<noteq>
     Inl UninitializedRead"
  by (auto simp: cdef_plane_def Let_def cdef_luma_cases split: sum.splits dest: CopyPixels_fault)

lemma cdef_plane_luma_result:
  assumes "cdef_plane be sc pf index False r rs c cs cstride cbb sbb kPlaneY (dy, st) =
             Inr (dy', st')"
  shows "(uv_primary_strength pf index \<noteq> 0 \<longrightarrow>
            dy' = Some (fst (cdef_direction be (mem st) (sbb kPlaneY)
                               (frame_buffer_stride pf kPlaneY)))) \<and>
         (\<exists>filt. calls st' = calls st @
             (if (y_primary_strength pf index OR uv_primary_strength pf index) \<noteq> 0
              then [DirectionCall (sbb kPlaneY) (frame_buffer_stride pf kPlaneY)] else []) @ filt \<and>
            (filt = [] \<or>
             filt = [FilterCall (filter_args be pf r rs c cs (cstride kPlaneY) (cbb kPlaneY) kPlaneY
                (luma_primary pf index
                   (if (y_primary_strength pf index OR uv_primary_strength pf index) \<noteq> 0
                    then snd (cdef_direction be (mem st) (sbb kPlaneY)
                                (frame_buffer_stride pf kPlaneY))
                    else 0))
                (y_secondary_strength pf index)
                (if y_primary_strength pf index = 0 then 0
                 else fst (cdef_direction be (mem st) (sbb kPlaneY)
                             (frame_buffer_stride pf kPlaneY))))]))"
  using assms
  by (auto simp: cdef_plane_def Let_def cdef_luma_cases or_eq_0_iff luma_primary_def
      split: sum.splits if_splits)

lemma cdef_plane_chroma_fault:
  assumes "p \<noteq> kPlaneY" "uv_primary_strength pf index \<noteq> 0 \<longrightarrow> dy = Some d0"
  shows "cdef_plane be sc pf index False r rs c cs cstride cbb sbb p (dy, st) \<noteq>
     Inl UninitializedRead"
  using assms
  by (auto simp: cdef_plane_def Let_def cdef_chroma_cases
      split: sum.splits option.splits if_splits
      dest: CopyPixels_fault uv_direction_fault)

lemma cdef_plane_chroma_result:
  assumes "p \<noteq> kPlaneY" "uv_primary_strength pf index \<noteq> 0 \<longrightarrow> dy = Some d0"
    and "cdef_plane be sc pf index False r rs c cs cstride cbb sbb p (dy, st) = Inr (dy', st')"
  shows "dy' = dy \<and>
         (\<exists>new. calls st' = calls st @ new \<and> (\<forall>c\<in>set new. chroma_call_ok pf index d0 c))"
  using assms
  by (auto simp: cdef_plane_def Let_def cdef_chroma_cases chroma_call_ok_def filter_args_def
      split: sum.splits option.splits if_splits)

lemma cdef_planes_chroma_fault:
  assumes "\<forall>p\<in>set ps. p \<noteq> kPlaneY" "uv_primary_strength pf index \<noteq> 0 \<longrightarrow> dy = Some d0"
  shows "cdef_planes be sc pf index False r rs c cs cstride cbb sbb ps (dy, st) \<noteq>
           Inl UninitializedRead"
  using assms
proof (induction ps arbitrary: st)
  case Nil
  then show ?case by simp
next
  case (Cons p ps)
  from Cons.prems have p: "p \<noteq> kPlaneY" and ps: "\<forall>p\<in>set ps. p \<noteq> kPlaneY" by simp_all
  show ?case
  proof (cases "cdef_plane be sc pf index False r rs c cs cstride cbb sbb p (dy, st)")
    case (Inl e)
    with cdef_plane_chroma_fault[OF p Cons.prems(2), of be sc r rs c cs cstride cbb sbb st]
    show ?thesis by auto
  next
    case (Inr s')
    obtain dy' st' where s': "s' = (dy', st')" by (cases s')
    from cdef_plane_chroma_result[OF p Cons.prems(2) Inr[unfolded s']] have "dy' = dy" by simp
    with Inr s' Cons.IH[OF ps Cons.prems(2), of st'] show ?thesis by simp
  qed
qed

lemma cdef_planes_chroma_result:
  assumes "\<forall>p\<in>set ps. p \<noteq> kPlaneY" "uv_primary_strength pf index \<noteq> 0 \<longrightarrow> dy = Some d0"
    and "cdef_planes be sc pf index False r rs c cs cstride cbb sbb ps (dy, st) = Inr (dy', st')"
  shows "\<exists>new. calls st' = calls st @ new \<and> (\<forall>c\<in>set new. chroma_call_ok pf index d0 c)"
  using assms
proof (induction ps arbitrary: st)
  case Nil
  then show ?case by simp
next
  case (Cons p ps)
  from Cons.prems have p: "p \<noteq> kPlaneY" and ps: "\<forall>p\<in>set ps. p \<noteq> kPlaneY" by simp_all
  from Cons.prems(3) obtain dy1 st1 where
    1: "cdef_plane be sc pf index False r rs c cs cstride cbb sbb p (dy, st) = Inr (dy1, st1)"
    and 2: "cdef_planes be sc pf index False r rs c cs cstride cbb sbb ps (dy1, st1) = Inr (dy', st')"
    by (auto split: sum.splits)
  from cdef_plane_chroma_result[OF p Cons.prems(2) 1] obtain new1 where
    dy1: "dy1 = dy" and n1: "calls st1 = calls st @ new1"
    and ok1: "\<forall>c\<in>set new1. chroma_call_ok pf index d0 c" by blast
  from Cons.IH[OF ps Cons.prems(2) 2[unfolded dy1]] obtain new2 where
    n2: "calls st' = calls st1 @ new2" and ok2: "\<forall>c\<in>set new2. chroma_call_ok pf index d0 c"
    by blast
  from n1 n2 have "calls st' = calls st @ (new1 @ new2)" by simp
  moreover from ok1 ok2 have "\<forall>c\<in>set (new1 @ new2). chroma_call_ok pf index d0 c" by auto
  ultimately show ?case by blast
qed

lemma upt_kPlaneY:
  "0 < n \<Longrightarrow> [kPlaneY..<n] = kPlaneY # [Suc kPlaneY..<n]"
  by (simp add: kPlaneY_def upt_conv_Cons)

lemma cdef_block8x8_fault:
  "cdef_block8x8 be sc pf index bp0 bp1 r rs c cs cstride cbb sbb st \<noteq> Inl UninitializedRead"
proof (cases "bp_skip pf bp0 \<and> bp_skip pf (bp0 + 1) \<and> bp_skip pf bp1 \<and> bp_skip pf (bp1 + 1)")
  case True
  have "cdef_planes be sc pf index True r rs c cs cstride cbb sbb ps (dy, st1) \<noteq>
          Inl UninitializedRead" for ps dy st1
  proof (induction ps arbitrary: st1)
    case Nil
    then show ?case by simp
  next
    case (Cons p ps)
    then show ?case
      by (auto simp: cdef_plane_def Let_def split: sum.splits dest: CopyPixels_fault)
  qed
  with True show ?thesis by (auto simp: cdef_block8x8_def split: sum.splits)
next
  case False
  show ?thesis
  proof (cases "0 < planes pf")
    case np: False
    with False show ?thesis by (simp add: cdef_block8x8_def kPlaneY_def)
  next
    case True
    note up = upt_kPlaneY[OF True]
    have ps: "\<forall>p\<in>set [Suc kPlaneY..<planes pf]. p \<noteq> kPlaneY" by (auto simp: kPlaneY_def)
    show ?thesis
    proof (cases "cdef_plane be sc pf index False r rs c cs cstride cbb sbb kPlaneY (None, st)")
      case (Inl e)
      with cdef_plane_luma_fault[of be sc pf index r rs c cs cstride cbb sbb None st] False
      show ?thesis by (auto simp: cdef_block8x8_def up)
    next
      case (Inr s1)
      obtain dy1 st1 where s1: "s1 = (dy1, st1)" by (cases s1)
      from cdef_plane_luma_result[OF Inr[unfolded s1]]
      have J: "uv_primary_strength pf index \<noteq> 0 \<longrightarrow>
            dy1 = Some (fst (cdef_direction be (mem st) (sbb kPlaneY)
                               (frame_buffer_stride pf kPlaneY)))" by (rule conjunct1)
      from cdef_planes_chroma_fault[OF ps J, of be sc r rs c cs cstride cbb sbb st1] Inr s1 False
      show ?thesis by (auto simp: cdef_block8x8_def up split: sum.splits)
    qed
  qed
qed

lemma cdef_block8x8_calls:
  assumes noskip: "\<not> (bp_skip pf bp0 \<and> bp_skip pf (bp0 + 1) \<and> bp_skip pf bp1 \<and>
                      bp_skip pf (bp1 + 1))"
    and run: "cdef_block8x8 be sc pf index bp0 bp1 r rs c cs cstride cbb sbb st = Inr st'"
    and planes: "0 < planes pf"
  shows "\<exists>filt chroma. calls st' = calls st @
             (if (y_primary_strength pf index OR uv_primary_strength pf index) \<noteq> 0
              then [DirectionCall (sbb kPlaneY) (frame_buffer_stride pf kPlaneY)] else []) @
             filt @ chroma \<and>
            (filt = [] \<or>
             filt = [FilterCall (filter_args be pf r rs c cs (cstride kPlaneY) (cbb kPlaneY) kPlaneY
                (luma_primary pf index
                   (if (y_primary_strength pf index OR uv_primary_strength pf index) \<noteq> 0
                    then snd (cdef_direction be (mem st) (sbb kPlaneY)
                                (frame_buffer_stride pf kPlaneY))
                    else 0))
                (y_secondary_strength pf index)
                (if y_primary_strength pf index = 0 then 0
                 else fst (cdef_direction be (mem st) (sbb kPlaneY)
                             (frame_buffer_stride pf kPlaneY))))]) \<and>
            (\<forall>c\<in>set chroma. chroma_call_ok pf index
               (fst (cdef_direction be (mem st) (sbb kPlaneY) (frame_buffer_stride pf kPlaneY))) c)"
proof -
  note up = upt_kPlaneY[OF planes]
  have ps: "\<forall>p\<in>set [Suc kPlaneY..<planes pf]. p \<noteq> kPlaneY" by (auto simp: kPlaneY_def)
  from run noskip obtain dy1 st1 dy2 where
    1: "cdef_plane be sc pf index False r rs c cs cstride cbb sbb kPlaneY (None, st) = Inr (dy1, st1)"
    and 2: "cdef_planes be sc pf index False r rs c cs cstride cbb sbb [Suc kPlaneY..<planes pf]
              (dy1, st1) = Inr (dy2, st')"
    by (auto simp: cdef_block8x8_def up split: sum.splits)
  note L = cdef_plane_luma_result[OF 1]
  from L have J: "uv_primary_strength pf index \<noteq> 0 \<longrightarrow>
            dy1 = Some (fst (cdef_direction be (mem st) (sbb kPlaneY)
                               (frame_buffer_stride pf kPlaneY)))" by (rule conjunct1)
  from L obtain filt where
    f1: "calls st1 = calls st @
             (if (y_primary_strength pf index OR uv_primary_strength pf index) \<noteq> 0
              then [DirectionCall (sbb kPlaneY) (frame_buffer_stride pf kPlaneY)] else []) @ filt"
    and f2: "filt = [] \<or>
             filt = [FilterCall (filter_args be pf r rs c cs (cstride kPlaneY) (cbb kPlaneY) kPlaneY
                (luma_primary pf index
                   (if (y_primary_strength pf index OR uv_primary_strength pf index) \<noteq> 0
                    then snd (cdef_direction be (mem st) (sbb kPlaneY)
                                (frame_buffer_stride pf kPlaneY))
                    else 0))
                (y_secondary_strength pf index)
                (if y_primary_strength pf index = 0 then 0
                 else fst (cdef_direction be (mem st) (sbb kPlaneY)
                             (frame_buffer_stride pf kPlaneY))))]"
    by blast
  from cdef_planes_chroma_result[OF ps J 2] obtain chroma where
    c1: "calls st' = calls st1 @ chroma"
    and c2: "\<forall>c\<in>set chroma. chroma_call_ok pf index
               (fst (cdef_direction be (mem st) (sbb kPlaneY) (frame_buffer_stride pf kPlaneY))) c"
    by blast
  from f1 c1 have "calls st' = calls st @
             (if (y_primary_strength pf index OR uv_primary_strength pf index) \<noteq> 0
              then [DirectionCall (sbb kPlaneY) (frame_buffer_stride pf kPlaneY)] else []) @
             filt @ chroma" by simp
  with f2 c2 show ?thesis by blast
qed

lemma FloorLog2_nonneg: "0 \<le> FloorLog2 n"
  by (simp add: FloorLog2_def)

lemma uint_luma_primary:
  assumes "0 \<le> V"
  shows "uint (luma_primary pf index V) =
           spec_effective_primary V (uint (y_primary_strength pf index))"
proof (cases "V = 0")
  case True
  then show ?thesis by (simp add: luma_primary_def spec_effective_primary_def)
next
  case False
  let ?p = "uint (y_primary_strength pf index)"
  let ?vs = "spec_variance_strength V"
  have vs: "0 \<le> ?vs" "?vs \<le> 12"
    using FloorLog2_nonneg[of "V div 2 ^ 6"] by (simp_all add: spec_variance_strength_def)
  have p: "0 \<le> ?p" "?p \<le> 255"
    using uint_lt2p[of "y_primary_strength pf index"] by simp_all
  have "?p * (4 + ?vs) \<le> 255 * 16"
    using p vs by (intro mult_mono) simp_all
  moreover have "0 \<le> ?p * (4 + ?vs)" using p vs by simp
  ultimately have b: "0 \<le> (?p * (4 + ?vs) + 8) div 2 ^ 4" "(?p * (4 + ?vs) + 8) div 2 ^ 4 < 2 ^ 8"
    by simp_all
  have "luma_primary pf index V = word_of_int ((?p * (4 + ?vs) + 8) div 2 ^ 4)"
    using False by (simp add: luma_primary_def spec_variance_strength_def drop_bit_eq_div)
  then have "uint (luma_primary pf index V) = ((?p * (4 + ?vs) + 8) div 2 ^ 4) mod 2 ^ 8"
    by (simp add: uint_word_of_int)
  also have "\<dots> = (?p * (4 + ?vs) + 8) div 2 ^ 4"
    using b by (intro mod_pos_pos_trivial) simp_all
  finally show ?thesis using False by (simp add: spec_effective_primary_def)
qed

lemma filter_args_sel:
  "fc_plane (filter_args be pf r rs c cs dstride dest plane P S direction) = plane"
  "fc_primary_strength (filter_args be pf r rs c cs dstride dest plane P S direction) = uint P"
  "fc_secondary_strength (filter_args be pf r rs c cs dstride dest plane P S direction) = uint S"
  "fc_direction (filter_args be pf r rs c cs dstride dest plane P S direction) = direction"
  by (simp_all add: filter_args_def Let_def)

lemma block_without_planes:
  assumes "\<not> 0 < planes pf"
  shows "cdef_block8x8 be sc pf index bp0 bp1 r rs c cs cstride cbb sbb st = Inr st"
  using assms by (simp add: cdef_block8x8_def kPlaneY_def)

lemma cdef_columns_fault:
  "cdef_columns be sc pf index r rs cs bw cstride cstep c bp0 bp1 cbb sbb st \<noteq>
     Inl UninitializedRead"
proof (induction be sc pf index r rs cs bw cstride cstep c bp0 bp1 cbb sbb st
       rule: cdef_columns.induct)
  case (1 be sc pf index r rs cs bw cstride cstep c bp0 bp1 cbb sbb st)
  show ?case
  proof (cases "cdef_block8x8 be sc pf index bp0 bp1 r rs c cs cstride cbb sbb st")
    case (Inl e)
    with cdef_block8x8_fault[of be sc pf index bp0 bp1 r rs c cs cstride cbb sbb st]
    show ?thesis by (subst cdef_columns.simps) auto
  next
    case (Inr st')
    with "1.IH"[OF Inr] show ?thesis by (subst cdef_columns.simps) simp
  qed
qed

lemma cdef_rows_fault:
  "cdef_rows be sc pf index rs cs bw bh cstride cstep crs srs bps r b0 b1 crb srb st \<noteq>
     Inl UninitializedRead"
proof (induction be sc pf index rs cs bw bh cstride cstep crs srs bps r b0 b1 crb srb st
       rule: cdef_rows.induct)
  case (1 be sc pf index rs cs bw bh cstride cstep crs srs bps r b0 b1 crb srb st)
  show ?case
  proof (cases "cdef_columns be sc pf index r rs cs bw cstride cstep cs b0 b1 crb srb st")
    case (Inl e)
    with cdef_columns_fault[of be sc pf index r rs cs bw cstride cstep cs b0 b1 crb srb st]
    show ?thesis by (subst cdef_rows.simps) auto
  next
    case (Inr st')
    with "1.IH"[OF Inr] show ?thesis by (subst cdef_rows.simps) simp
  qed
qed

lemma copy_planes_fault:
  "copy_planes pf bw bh srb crb cstride ps m \<noteq> Inl UninitializedRead"
proof (induction ps arbitrary: m)
  case Nil
  then show ?case by simp
next
  case (Cons p ps)
  then show ?case by (auto split: sum.splits dest: CopyPixels_fault)
qed

lemma collect_fault:
  "collect xs = Inl e \<Longrightarrow> Inl e \<in> set xs"
  by (induction xs) (auto split: sum.splits)

lemma GetCdefBufferAndStride_fault:
  "GetCdefBufferAndStride pf x y plane wsize = Inl e \<Longrightarrow> e = DivisionByZero"
  by (auto simp: GetCdefBufferAndStride_def Let_def split: if_splits)

lemma ApplyCdefForOneUnit_fault:
  "ApplyCdefForOneUnit be pf index bw bh rs cs st \<noteq> Inl UninitializedRead"
proof
  assume a: "ApplyCdefForOneUnit be pf index bw bh rs cs st = Inl UninitializedRead"
  let ?bufs = "collect (map (\<lambda>plane. GetCdefBufferAndStride pf
                  (drop_bit (subsampling_x pf plane) (MultiplyBy4 cs))
                  (drop_bit (subsampling_y pf plane) (MultiplyBy4 rs)) plane
                  (window_buffer_width pf * window_buffer_height pf * pixel_size pf))
                [kPlaneY..<planes pf])"
  show False
  proof (cases ?bufs)
    case (Inl e)
    from collect_fault[OF Inl] have "e = DivisionByZero"
      by (auto dest: GetCdefBufferAndStride_fault[OF sym])
    with a Inl show False by (simp add: ApplyCdefForOneUnit_def Let_def)
  next
    case (Inr bufs)
    with a show False
      by (auto simp: ApplyCdefForOneUnit_def Let_def cdef_rows_fault copy_planes_fault
          split: if_splits sum.splits)
  qed
qed

subsection \<open>The example frame\<close>

lemma FloorLog2_64: "FloorLog2 64 = 6"
  by (simp add: FloorLog2_def floor_log2.simps)

lemma upt_3: "[0..<3] = [0, 1, 2::nat]"
  by (simp add: upt_conv_Cons)

lemma example_block_run:
  "cdef_block8x8 example_backend () example_filter 0 0 4 0 0 0 0 (\<lambda>p. 64)
     (cdef_buffer example_filter) (source_buffer example_filter) example_state =
   Inr (example_state\<lparr>calls := example_calls\<rparr>)"
  by (simp add: cdef_block8x8_def example_filter_def upt_3 cdef_plane_def cdef_luma_def
      cdef_chroma_def example_backend_def example_state_def example_calls_def filter_args_def
      kPlaneY_def FloorLog2_64 MultiplyBy4_def Let_def drop_bit_eq_div)

lemma example_block_run_uv:
  "cdef_block8x8 example_backend () (example_filter\<lparr>uv_primary_strength := (\<lambda>i. 4)\<rparr>)
     0 0 4 0 0 0 0 (\<lambda>p. 64)
     (cdef_buffer example_filter) (source_buffer example_filter) example_state =
   Inr (example_state\<lparr>calls := example_calls_uv\<rparr>)"
  by (simp add: cdef_block8x8_def example_filter_def upt_3 cdef_plane_def cdef_luma_def
      cdef_chroma_def example_backend_def example_state_def example_calls_uv_def filter_args_def
      kPlaneY_def FloorLog2_64 MultiplyBy4_def Let_def drop_bit_eq_div uv_direction_def
      kCdefUvDirection_def)

subsection \<open>Skipped blocks\<close>






lemma block_count_pos: "0 \<le> block_count n - 1"
  by (simp add: block_count_def)



























































subsection \<open>The chroma direction\<close>

text \<open>
  Claim C1, as amended. In a block that is not skipped, every call of the filter kernel for a
  chroma plane gets direction 0 when the chroma primary strength of the unit is 0, and
  otherwise the entry of \<open>kCdefUvDirection\<close> at the plane's x-subsampling, its
  y-subsampling and the luma direction that the backend computed for this block; that
  entry exists. For subsampling (1, 0) the table sends 0 to 7, 4 to 5 and 7 to 6; for
  subsampling (1, 1) it is the identity, sending 0 to 0, 4 to 4 and 7 to 7.
\<close>

theorem chroma_direction_remapped:
  assumes noskip: "\<not> (bp_skip pf bp0 \<and> bp_skip pf (bp0 + 1) \<and> bp_skip pf bp1 \<and>
                      bp_skip pf (bp1 + 1))"
    and run: "cdef_block8x8 be scratch pf index bp0 bp1 row4x4 row4x4_start column4x4
                column4x4_start cdef_buffer_stride cdef_buffer_base src_buffer_base st = Inr st'"
    and new: "calls st' = calls st @ new"
    and call: "FilterCall fc \<in> set new"
    and chroma: "fc_plane fc \<noteq> kPlaneY"
  shows "(if uv_primary_strength pf index = 0 then fc_direction fc = 0
          else uv_direction (subsampling_x pf (fc_plane fc)) (subsampling_y pf (fc_plane fc))
                 (fst (cdef_direction be (mem st) (src_buffer_base kPlaneY)
                         (frame_buffer_stride pf kPlaneY))) = Inr (fc_direction fc)) \<and>
         uv_direction 1 0 0 = Inr 7 \<and> uv_direction 1 0 4 = Inr 5 \<and> uv_direction 1 0 7 = Inr 6 \<and>
         uv_direction 1 1 0 = Inr 0 \<and> uv_direction 1 1 4 = Inr 4 \<and> uv_direction 1 1 7 = Inr 7"
proof -
  have planes: "0 < planes pf"
  proof (rule ccontr)
    assume "\<not> 0 < planes pf"
    from block_without_planes[OF this, of be scratch index bp0 bp1 row4x4 row4x4_start column4x4
        column4x4_start cdef_buffer_stride cdef_buffer_base src_buffer_base st] run
    have "st' = st" by simp
    with new call show False by simp
  qed
  from cdef_block8x8_calls[OF noskip run planes] obtain filt chroma P S dir where
    c: "calls st' = calls st @
             (if (y_primary_strength pf index OR uv_primary_strength pf index) \<noteq> 0
              then [DirectionCall (src_buffer_base kPlaneY) (frame_buffer_stride pf kPlaneY)]
              else []) @ filt @ chroma"
    and f: "filt = [] \<or>
             filt = [FilterCall (filter_args be pf row4x4 row4x4_start column4x4 column4x4_start
                (cdef_buffer_stride kPlaneY) (cdef_buffer_base kPlaneY) kPlaneY P S dir)]"
    and ch: "\<forall>c\<in>set chroma. chroma_call_ok pf index
               (fst (cdef_direction be (mem st) (src_buffer_base kPlaneY)
                       (frame_buffer_stride pf kPlaneY))) c"
    by blast
  from c new have "new = (if (y_primary_strength pf index OR uv_primary_strength pf index) \<noteq> 0
              then [DirectionCall (src_buffer_base kPlaneY) (frame_buffer_stride pf kPlaneY)]
              else []) @ filt @ chroma" by simp
  with call have "FilterCall fc \<in> set filt \<or> FilterCall fc \<in> set chroma"
    by (auto split: if_splits)
  moreover have "FilterCall fc \<notin> set filt"
  proof
    assume "FilterCall fc \<in> set filt"
    with f have "fc = filter_args be pf row4x4 row4x4_start column4x4 column4x4_start
                (cdef_buffer_stride kPlaneY) (cdef_buffer_base kPlaneY) kPlaneY P S dir" by auto
    then have "fc_plane fc = kPlaneY" by (simp only: filter_args_sel)
    with chroma show False by simp
  qed
  ultimately have "FilterCall fc \<in> set chroma" by simp
  with ch have "chroma_call_ok pf index
               (fst (cdef_direction be (mem st) (src_buffer_base kPlaneY)
                       (frame_buffer_stride pf kPlaneY))) (FilterCall fc)" by blast
  then have "if uv_primary_strength pf index = 0 then fc_direction fc = 0
          else uv_direction (subsampling_x pf (fc_plane fc)) (subsampling_y pf (fc_plane fc))
                 (fst (cdef_direction be (mem st) (src_buffer_base kPlaneY)
                         (frame_buffer_stride pf kPlaneY))) = Inr (fc_direction fc)"
    by (simp add: chroma_call_ok_def)
  moreover have "uv_direction 1 0 0 = Inr 7" "uv_direction 1 0 4 = Inr 5"
    "uv_direction 1 0 7 = Inr 6" "uv_direction 1 1 0 = Inr 0" "uv_direction 1 1 4 = Inr 4"
    "uv_direction 1 1 7 = Inr 7"
    by (simp_all add: uv_direction_def kCdefUvDirection_def)
  ultimately show ?thesis by (intro conjI)
qed

theorem chroma_direction_remapped_witness:
  "cdef_block8x8 example_backend () example_filter 0 0 4 0 0 0 0 (\<lambda>p. 64)
     (cdef_buffer example_filter) (source_buffer example_filter) example_state =
   Inr (example_state\<lparr>calls := example_calls\<rparr>) \<and>
   FilterCall \<lparr> fc_plane = 1, fc_src = 5042, fc_src_stride = 70, fc_block_width = 4,
        fc_block_height = 8, fc_primary_strength = 0, fc_secondary_strength = 1,
        fc_damping = 4, fc_direction = 0, fc_dest = 12000, fc_dest_stride = 64 \<rparr>
     \<in> set example_calls \<and>
   uv_primary_strength example_filter 0 = 0 \<and>
   cdef_block8x8 example_backend () (example_filter\<lparr>uv_primary_strength := (\<lambda>i. 4)\<rparr>)
     0 0 4 0 0 0 0 (\<lambda>p. 64)
     (cdef_buffer example_filter) (source_buffer example_filter) example_state =
   Inr (example_state\<lparr>calls := example_calls_uv\<rparr>) \<and>
   FilterCall \<lparr> fc_plane = 1, fc_src = 5042, fc_src_stride = 70, fc_block_width = 4,
        fc_block_height = 8, fc_primary_strength = 4, fc_secondary_strength = 1,
        fc_damping = 4, fc_direction = 4, fc_dest = 12000, fc_dest_stride = 64 \<rparr>
     \<in> set example_calls_uv \<and>
   uv_direction 1 0 3 = Inr 4 \<and>
   uv_direction 1 0 0 = Inr 7 \<and> uv_direction 1 1 7 = Inr 7"
proof -
  let ?fc = "\<lparr> fc_plane = 1, fc_src = 5042, fc_src_stride = 70, fc_block_width = 4,
        fc_block_height = 8, fc_primary_strength = 0, fc_secondary_strength = 1,
        fc_damping = 4, fc_direction = 0, fc_dest = 12000, fc_dest_stride = 64 \<rparr>"
  let ?fc' = "\<lparr> fc_plane = 1, fc_src = 5042, fc_src_stride = 70, fc_block_width = 4,
        fc_block_height = 8, fc_primary_strength = 4, fc_secondary_strength = 1,
        fc_damping = 4, fc_direction = 4, fc_dest = 12000, fc_dest_stride = 64 \<rparr>"
  let ?pf' = "example_filter\<lparr>uv_primary_strength := (\<lambda>i. 4)\<rparr>"
  have noskip: "\<not> (bp_skip example_filter 0 \<and> bp_skip example_filter (0 + 1) \<and>
                    bp_skip example_filter 4 \<and> bp_skip example_filter (4 + 1))"
    by (simp add: example_filter_def)
  have noskip': "\<not> (bp_skip ?pf' 0 \<and> bp_skip ?pf' (0 + 1) \<and> bp_skip ?pf' 4 \<and> bp_skip ?pf' (4 + 1))"
    by (simp add: example_filter_def)
  have new: "calls (example_state\<lparr>calls := example_calls\<rparr>) = calls example_state @ example_calls"
    by (simp add: example_state_def)
  have new': "calls (example_state\<lparr>calls := example_calls_uv\<rparr>) =
              calls example_state @ example_calls_uv"
    by (simp add: example_state_def)
  have call: "FilterCall ?fc \<in> set example_calls" by (simp add: example_calls_def)
  have call': "FilterCall ?fc' \<in> set example_calls_uv" by (simp add: example_calls_uv_def)
  have chroma: "fc_plane ?fc \<noteq> kPlaneY" and chroma': "fc_plane ?fc' \<noteq> kPlaneY"
    by (simp_all add: kPlaneY_def)
  from chroma_direction_remapped[OF noskip example_block_run new call chroma]
  have a: "uv_direction 1 0 0 = Inr 7 \<and> uv_direction 1 1 7 = Inr 7" by simp
  from chroma_direction_remapped[OF noskip' example_block_run_uv new' call' chroma']
  have b: "uv_direction 1 0 3 = Inr 4"
    by (simp add: example_filter_def example_backend_def kPlaneY_def)
  have c: "uv_primary_strength example_filter 0 = 0" by (simp add: example_filter_def)
  from a b c example_block_run example_block_run_uv call call' show ?thesis
    by (intro conjI) simp_all
qed

text \<open>
  The claim as stated fails twice. In the example frame the chroma planes are filtered
  with primary strength 0 and secondary strength 1: the backend reports luma direction 3,
  the table entry for it is not 0, and the kernel is called with direction 0. And for
  subsampling (1, 1) the table does not send 0 to 7 nor 4 to 5.
\<close>

theorem chroma_direction_counterexample:
  "cdef_block8x8 example_backend () example_filter 0 0 4 0 0 0 0 (\<lambda>p. 64)
     (cdef_buffer example_filter) (source_buffer example_filter) example_state =
   Inr (example_state\<lparr>calls := example_calls\<rparr>) \<and>
   FilterCall \<lparr> fc_plane = 1, fc_src = 5042, fc_src_stride = 70, fc_block_width = 4,
        fc_block_height = 8, fc_primary_strength = 0, fc_secondary_strength = 1,
        fc_damping = 4, fc_direction = 0, fc_dest = 12000, fc_dest_stride = 64 \<rparr>
     \<in> set example_calls \<and>
   fst (cdef_direction example_backend (mem example_state) (source_buffer example_filter 0)
          (frame_buffer_stride example_filter 0)) = 3 \<and>
   uint (kCdefUvDirection ! subsampling_x example_filter 1 ! subsampling_y example_filter 1 ! 3)
     \<noteq> 0 \<and>
   uint (kCdefUvDirection ! 1 ! 1 ! 0) \<noteq> 7 \<and>
   uint (kCdefUvDirection ! 1 ! 1 ! 4) \<noteq> 5"
proof -
  have "FilterCall \<lparr> fc_plane = 1, fc_src = 5042, fc_src_stride = 70, fc_block_width = 4,
        fc_block_height = 8, fc_primary_strength = 0, fc_secondary_strength = 1,
        fc_damping = 4, fc_direction = 0, fc_dest = 12000, fc_dest_stride = 64 \<rparr>
     \<in> set example_calls" by (simp add: example_calls_def)
  moreover have "fst (cdef_direction example_backend (mem example_state)
          (source_buffer example_filter 0) (frame_buffer_stride example_filter 0)) = 3"
    by (simp add: example_backend_def)
  moreover have
    "uint (kCdefUvDirection ! subsampling_x example_filter 1 ! subsampling_y example_filter 1 ! 3)
       \<noteq> 0"
    "uint (kCdefUvDirection ! 1 ! 1 ! 0) \<noteq> 7" "uint (kCdefUvDirection ! 1 ! 1 ! 4) \<noteq> 5"
    by (simp_all add: kCdefUvDirection_def example_filter_def)
  ultimately show ?thesis using example_block_run by (intro conjI)
qed

subsection \<open>The luma primary strength\<close>

text \<open>
  Claim C2. In a block that is not skipped, the call of the filter kernel for the luma plane
  gets as primary strength exactly the specification's \<open>effective_primary\<close> of the
  variance \<open>V\<close> and the configured luma primary strength, where \<open>V\<close> is the variance the
  backend computed for the block, or 0 when the code did not ask for it; storing the value
  in a \<open>uint8_t\<close> loses nothing. The backend's variance is not negative. \<open>V = 0\<close> gives
  0, and \<open>V = 4096\<close> with primary strength 16 gives 10.
\<close>

theorem luma_primary_strength_scaling:
  assumes noskip: "\<not> (bp_skip pf bp0 \<and> bp_skip pf (bp0 + 1) \<and> bp_skip pf bp1 \<and>
                      bp_skip pf (bp1 + 1))"
    and run: "cdef_block8x8 be scratch pf index bp0 bp1 row4x4 row4x4_start column4x4
                column4x4_start cdef_buffer_stride cdef_buffer_base src_buffer_base st = Inr st'"
    and new: "calls st' = calls st @ new"
    and call: "FilterCall fc \<in> set new"
    and luma: "fc_plane fc = kPlaneY"
    and V: "V = (if (y_primary_strength pf index OR uv_primary_strength pf index) \<noteq> 0
                 then snd (cdef_direction be (mem st) (src_buffer_base kPlaneY)
                             (frame_buffer_stride pf kPlaneY))
                 else 0)"
    and nonneg: "0 \<le> V"
  shows "fc_primary_strength fc =
           spec_effective_primary V (uint (y_primary_strength pf index)) \<and>
         spec_effective_primary 0 (uint (y_primary_strength pf index)) = 0 \<and>
         spec_effective_primary 4096 16 = 10"
proof (intro conjI)
  have planes: "0 < planes pf"
  proof (rule ccontr)
    assume "\<not> 0 < planes pf"
    from block_without_planes[OF this, of be scratch index bp0 bp1 row4x4 row4x4_start column4x4
        column4x4_start cdef_buffer_stride cdef_buffer_base src_buffer_base st] run
    have "st' = st" by simp
    with new call show False by simp
  qed
  from cdef_block8x8_calls[OF noskip run planes] obtain filt chroma where
    c: "calls st' = calls st @
             (if (y_primary_strength pf index OR uv_primary_strength pf index) \<noteq> 0
              then [DirectionCall (src_buffer_base kPlaneY) (frame_buffer_stride pf kPlaneY)]
              else []) @ filt @ chroma"
    and f: "filt = [] \<or>
             filt = [FilterCall (filter_args be pf row4x4 row4x4_start column4x4 column4x4_start
                (cdef_buffer_stride kPlaneY) (cdef_buffer_base kPlaneY) kPlaneY
                (luma_primary pf index V) (y_secondary_strength pf index)
                (if y_primary_strength pf index = 0 then 0
                 else fst (cdef_direction be (mem st) (src_buffer_base kPlaneY)
                             (frame_buffer_stride pf kPlaneY))))]"
    and ch: "\<forall>c\<in>set chroma. chroma_call_ok pf index
               (fst (cdef_direction be (mem st) (src_buffer_base kPlaneY)
                       (frame_buffer_stride pf kPlaneY))) c"
    unfolding V by blast
  from c new have "new = (if (y_primary_strength pf index OR uv_primary_strength pf index) \<noteq> 0
              then [DirectionCall (src_buffer_base kPlaneY) (frame_buffer_stride pf kPlaneY)]
              else []) @ filt @ chroma" by simp
  with call have "FilterCall fc \<in> set filt \<or> FilterCall fc \<in> set chroma"
    by (auto split: if_splits)
  moreover have "FilterCall fc \<notin> set chroma"
  proof
    assume "FilterCall fc \<in> set chroma"
    with ch luma show False by (auto simp: chroma_call_ok_def)
  qed
  ultimately have "FilterCall fc \<in> set filt" by simp
  with f have "fc = filter_args be pf row4x4 row4x4_start column4x4 column4x4_start
                (cdef_buffer_stride kPlaneY) (cdef_buffer_base kPlaneY) kPlaneY
                (luma_primary pf index V) (y_secondary_strength pf index)
                (if y_primary_strength pf index = 0 then 0
                 else fst (cdef_direction be (mem st) (src_buffer_base kPlaneY)
                             (frame_buffer_stride pf kPlaneY)))"
    by auto
  then have "fc_primary_strength fc = uint (luma_primary pf index V)"
    by (simp only: filter_args_sel)
  with uint_luma_primary[OF nonneg] show "fc_primary_strength fc =
           spec_effective_primary V (uint (y_primary_strength pf index))" by simp
next
  show "spec_effective_primary 0 (uint (y_primary_strength pf index)) = 0"
    by (simp add: spec_effective_primary_def)
next
  show "spec_effective_primary 4096 16 = 10"
    by (simp add: spec_effective_primary_def spec_variance_strength_def FloorLog2_64)
qed

theorem luma_primary_strength_scaling_witness:
  "cdef_block8x8 example_backend () example_filter 0 0 4 0 0 0 0 (\<lambda>p. 64)
     (cdef_buffer example_filter) (source_buffer example_filter) example_state =
   Inr (example_state\<lparr>calls := example_calls\<rparr>) \<and>
   FilterCall \<lparr> fc_plane = 0, fc_src = 142, fc_src_stride = 70, fc_block_width = 8,
        fc_block_height = 8, fc_primary_strength = 10, fc_secondary_strength = 1,
        fc_damping = 5, fc_direction = 3, fc_dest = 10000, fc_dest_stride = 64 \<rparr>
     \<in> set example_calls \<and>
   snd (cdef_direction example_backend (mem example_state) 0 64) = 4096 \<and>
   uint (y_primary_strength example_filter 0) = 16 \<and>
   spec_effective_primary 4096 16 = 10"
proof -
  let ?fc = "\<lparr> fc_plane = 0, fc_src = 142, fc_src_stride = 70, fc_block_width = 8,
        fc_block_height = 8, fc_primary_strength = 10, fc_secondary_strength = 1,
        fc_damping = 5, fc_direction = 3, fc_dest = 10000, fc_dest_stride = 64 \<rparr>"
  have noskip: "\<not> (bp_skip example_filter 0 \<and> bp_skip example_filter (0 + 1) \<and>
                    bp_skip example_filter 4 \<and> bp_skip example_filter (4 + 1))"
    by (simp add: example_filter_def)
  have new: "calls (example_state\<lparr>calls := example_calls\<rparr>) = calls example_state @ example_calls"
    by (simp add: example_state_def)
  have call: "FilterCall ?fc \<in> set example_calls" by (simp add: example_calls_def)
  have luma: "fc_plane ?fc = kPlaneY" by (simp add: kPlaneY_def)
  have V: "(4096 :: int) =
      (if (y_primary_strength example_filter 0 OR uv_primary_strength example_filter 0) \<noteq> 0
       then snd (cdef_direction example_backend (mem example_state)
                   (source_buffer example_filter kPlaneY)
                   (frame_buffer_stride example_filter kPlaneY))
       else 0)"
    by (simp add: example_filter_def example_backend_def)
  have nonneg: "(0 :: int) \<le> 4096" by simp
  from luma_primary_strength_scaling[OF noskip example_block_run new call luma V nonneg]
  have "spec_effective_primary 4096 16 = 10" by simp
  moreover have "snd (cdef_direction example_backend (mem example_state) 0 64) = 4096"
    by (simp add: example_backend_def)
  moreover have "uint (y_primary_strength example_filter 0) = 16"
    by (simp add: example_filter_def)
  ultimately show ?thesis using example_block_run call by simp
qed

subsection \<open>The luma direction is written before it is read\<close>

text \<open>
  Claim C10. Neither the processing of one 8x8 block nor \<open>ApplyCdefForOneUnit\<close> as a
  whole ever reads \<open>direction_y\<close> before it was written. When a block is not skipped and
  the chroma primary strength is not 0, the first kernel call of the block is the direction
  computation on its luma source block, and every later filter call for a chroma plane
  uses the table entry of the direction computed there.
\<close>

theorem direction_initialised_before_use:
  "cdef_block8x8 be scratch pf index bp0 bp1 row4x4 row4x4_start column4x4 column4x4_start
     cdef_buffer_stride cdef_buffer_base src_buffer_base st \<noteq> Inl UninitializedRead \<and>
   ApplyCdefForOneUnit be pf index block_width4x4 block_height4x4 row4x4_start column4x4_start st
     \<noteq> Inl UninitializedRead \<and>
   (\<not> (bp_skip pf bp0 \<and> bp_skip pf (bp0 + 1) \<and> bp_skip pf bp1 \<and> bp_skip pf (bp1 + 1)) \<and>
    uv_primary_strength pf index \<noteq> 0 \<and> 0 < planes pf \<and>
    cdef_block8x8 be scratch pf index bp0 bp1 row4x4 row4x4_start column4x4 column4x4_start
      cdef_buffer_stride cdef_buffer_base src_buffer_base st = Inr st' \<longrightarrow>
    (\<exists>rest. calls st' = calls st @
        DirectionCall (src_buffer_base kPlaneY) (frame_buffer_stride pf kPlaneY) # rest \<and>
      (\<forall>fc. FilterCall fc \<in> set rest \<and> fc_plane fc \<noteq> kPlaneY \<longrightarrow>
         uv_direction (subsampling_x pf (fc_plane fc)) (subsampling_y pf (fc_plane fc))
           (fst (cdef_direction be (mem st) (src_buffer_base kPlaneY)
                   (frame_buffer_stride pf kPlaneY))) = Inr (fc_direction fc))))"
proof (intro conjI impI)
  show "cdef_block8x8 be scratch pf index bp0 bp1 row4x4 row4x4_start column4x4 column4x4_start
     cdef_buffer_stride cdef_buffer_base src_buffer_base st \<noteq> Inl UninitializedRead"
    by (rule cdef_block8x8_fault)
next
  show "ApplyCdefForOneUnit be pf index block_width4x4 block_height4x4 row4x4_start
          column4x4_start st \<noteq> Inl UninitializedRead"
    by (rule ApplyCdefForOneUnit_fault)
next
  assume h: "\<not> (bp_skip pf bp0 \<and> bp_skip pf (bp0 + 1) \<and> bp_skip pf bp1 \<and> bp_skip pf (bp1 + 1)) \<and>
    uv_primary_strength pf index \<noteq> 0 \<and> 0 < planes pf \<and>
    cdef_block8x8 be scratch pf index bp0 bp1 row4x4 row4x4_start column4x4 column4x4_start
      cdef_buffer_stride cdef_buffer_base src_buffer_base st = Inr st'"
  then have noskip: "\<not> (bp_skip pf bp0 \<and> bp_skip pf (bp0 + 1) \<and> bp_skip pf bp1 \<and>
                        bp_skip pf (bp1 + 1))"
    and uv: "uv_primary_strength pf index \<noteq> 0" and planes: "0 < planes pf"
    and run: "cdef_block8x8 be scratch pf index bp0 bp1 row4x4 row4x4_start column4x4
                column4x4_start cdef_buffer_stride cdef_buffer_base src_buffer_base st = Inr st'"
    by simp_all
  from uv have cdv: "(y_primary_strength pf index OR uv_primary_strength pf index) \<noteq> 0"
    by (simp add: or_eq_0_iff)
  from cdef_block8x8_calls[OF noskip run planes] obtain filt chroma P S dir where
    c0: "calls st' = calls st @
             (if (y_primary_strength pf index OR uv_primary_strength pf index) \<noteq> 0
              then [DirectionCall (src_buffer_base kPlaneY) (frame_buffer_stride pf kPlaneY)]
              else []) @ filt @ chroma"
    and f: "filt = [] \<or>
             filt = [FilterCall (filter_args be pf row4x4 row4x4_start column4x4 column4x4_start
                (cdef_buffer_stride kPlaneY) (cdef_buffer_base kPlaneY) kPlaneY P S dir)]"
    and ch: "\<forall>c\<in>set chroma. chroma_call_ok pf index
               (fst (cdef_direction be (mem st) (src_buffer_base kPlaneY)
                       (frame_buffer_stride pf kPlaneY))) c"
    by blast
  from c0 cdv have c: "calls st' = calls st @
          DirectionCall (src_buffer_base kPlaneY) (frame_buffer_stride pf kPlaneY) #
          (filt @ chroma)" by simp
  have "uv_direction (subsampling_x pf (fc_plane fc)) (subsampling_y pf (fc_plane fc))
           (fst (cdef_direction be (mem st) (src_buffer_base kPlaneY)
                   (frame_buffer_stride pf kPlaneY))) = Inr (fc_direction fc)"
    if m: "FilterCall fc \<in> set (filt @ chroma)" and p: "fc_plane fc \<noteq> kPlaneY" for fc
  proof -
    have "FilterCall fc \<notin> set filt"
    proof
      assume "FilterCall fc \<in> set filt"
      with f have "fc = filter_args be pf row4x4 row4x4_start column4x4 column4x4_start
                (cdef_buffer_stride kPlaneY) (cdef_buffer_base kPlaneY) kPlaneY P S dir" by auto
      then have "fc_plane fc = kPlaneY" by (simp only: filter_args_sel)
      with p show False by simp
    qed
    with m have "FilterCall fc \<in> set chroma" by simp
    with ch uv show ?thesis by (auto simp: chroma_call_ok_def)
  qed
  with c show "\<exists>rest. calls st' = calls st @
        DirectionCall (src_buffer_base kPlaneY) (frame_buffer_stride pf kPlaneY) # rest \<and>
      (\<forall>fc. FilterCall fc \<in> set rest \<and> fc_plane fc \<noteq> kPlaneY \<longrightarrow>
         uv_direction (subsampling_x pf (fc_plane fc)) (subsampling_y pf (fc_plane fc))
           (fst (cdef_direction be (mem st) (src_buffer_base kPlaneY)
                   (frame_buffer_stride pf kPlaneY))) = Inr (fc_direction fc))"
    by (intro exI[of _ "filt @ chroma"]) blast
qed

theorem direction_initialised_before_use_witness:
  "cdef_block8x8 example_backend () (example_filter\<lparr>uv_primary_strength := (\<lambda>i. 4)\<rparr>)
     0 0 4 0 0 0 0 (\<lambda>p. 64)
     (cdef_buffer example_filter) (source_buffer example_filter) example_state =
   Inr (example_state\<lparr>calls := example_calls_uv\<rparr>) \<and>
   ApplyCdefForOneUnit example_backend (example_filter\<lparr>uv_primary_strength := (\<lambda>i. 4)\<rparr>)
     0 4 4 0 0 example_state \<noteq> Inl UninitializedRead \<and>
   (\<exists>rest. example_calls_uv = DirectionCall 0 64 # rest)"
proof -
  let ?pf = "example_filter\<lparr>uv_primary_strength := (\<lambda>i. 4)\<rparr>"
  note t = direction_initialised_before_use[of example_backend "()" ?pf 0 0 4 0 0 0 0
      "\<lambda>p. 64" "cdef_buffer example_filter" "source_buffer example_filter" example_state
      4 4 "example_state\<lparr>calls := example_calls_uv\<rparr>"]
  have h: "\<not> (bp_skip ?pf 0 \<and> bp_skip ?pf (0 + 1) \<and> bp_skip ?pf 4 \<and> bp_skip ?pf (4 + 1)) \<and>
    uv_primary_strength ?pf 0 \<noteq> 0 \<and> 0 < planes ?pf"
    by (simp add: example_filter_def)
  from t have a: "ApplyCdefForOneUnit example_backend ?pf 0 4 4 0 0 example_state \<noteq>
                    Inl UninitializedRead" by (elim conjE)
  from t h example_block_run_uv
  have "\<exists>rest. calls (example_state\<lparr>calls := example_calls_uv\<rparr>) = calls example_state @
        DirectionCall (source_buffer example_filter kPlaneY) (frame_buffer_stride ?pf kPlaneY) # rest"
    by blast
  then have b: "\<exists>rest. example_calls_uv = DirectionCall 0 64 # rest"
    by (simp add: example_state_def example_filter_def kPlaneY_def)
  from example_block_run_uv a b show ?thesis by (intro conjI)
qed

subsection \<open>The lag between superblock rows\<close>

lemma sb_loop_exit:
  "\<not> y < sb4x4 \<Longrightarrow>
     ApplyCdefForOneSuperBlockRow_loop helper frame_rows4x4 row4x4_start sb4x4 is_last_row y st =
     Inr st"
  by (subst ApplyCdefForOneSuperBlockRow_loop.simps) simp

lemma sb_loop_return:
  "frame_rows4x4 \<le> row4x4_start + y \<Longrightarrow>
     ApplyCdefForOneSuperBlockRow_loop helper frame_rows4x4 row4x4_start sb4x4 is_last_row y st =
     Inr st"
  by (subst ApplyCdefForOneSuperBlockRow_loop.simps) (simp add: Let_def)

lemma sb_loop_step:
  assumes "y < sb4x4" "row4x4_start + y < frame_rows4x4"
  shows "ApplyCdefForOneSuperBlockRow_loop helper frame_rows4x4 row4x4_start sb4x4 is_last_row y st =
     (case (if row4x4_start + y > 0 \<and> (\<not> is_last_row \<or> y = 0)
            then (if row4x4_start + y \<ge> 16 then helper (row4x4_start + y - 2) 2 st
                  else Inl AssertFailed)
            else Inr st) of
        Inl e \<Rightarrow> Inl e
      | Inr st1 \<Rightarrow>
          (case (if min 16 (frame_rows4x4 - (row4x4_start + y)) - (if is_last_row then 0 else 2) > 0
                 then helper (row4x4_start + y)
                        (min 16 (frame_rows4x4 - (row4x4_start + y)) -
                           (if is_last_row then 0 else 2)) st1
                 else Inr st1) of
             Inl e \<Rightarrow> Inl e
           | Inr st2 \<Rightarrow>
               ApplyCdefForOneSuperBlockRow_loop helper frame_rows4x4 row4x4_start sb4x4
                 is_last_row (y + 16) st2))"
  apply (subst ApplyCdefForOneSuperBlockRow_loop.simps)
  unfolding Let_def kStep64x64_def
  using assms by simp

lemma superblock_row_schedule_last16:
  assumes "row4x4_start = 0 \<or> 16 \<le> row4x4_start" "row4x4_start < frame_rows4x4"
    "frame_rows4x4 \<le> row4x4_start + 16"
  shows "ApplyCdefForOneSuperBlockRow_loop helper frame_rows4x4 row4x4_start 16 True 0 st =
         run_helper helper (cdef_schedule frame_rows4x4 row4x4_start 16 True) st"
proof -
  have "ApplyCdefForOneSuperBlockRow_loop helper frame_rows4x4 row4x4_start 16 True 16 s = Inr s"
    for s by (rule sb_loop_exit) simp
  with assms show ?thesis
    by (subst sb_loop_step) (auto simp: cdef_schedule_def split: sum.splits)
qed

lemma superblock_row_schedule_last32:
  assumes "row4x4_start = 0 \<or> 16 \<le> row4x4_start" "row4x4_start < frame_rows4x4"
    "frame_rows4x4 \<le> row4x4_start + 32"
  shows "ApplyCdefForOneSuperBlockRow_loop helper frame_rows4x4 row4x4_start 32 True 0 st =
         run_helper helper (cdef_schedule frame_rows4x4 row4x4_start 32 True) st"
proof -
  have e: "ApplyCdefForOneSuperBlockRow_loop helper frame_rows4x4 row4x4_start 32 True 32 s = Inr s"
    for s by (rule sb_loop_exit) simp
  show ?thesis
  proof (cases "row4x4_start + 16 < frame_rows4x4")
    case True
    have 2: "ApplyCdefForOneSuperBlockRow_loop helper frame_rows4x4 row4x4_start 32 True 16 s =
             (case helper (row4x4_start + 16) (min 16 (frame_rows4x4 - (row4x4_start + 16))) s of
                Inl e \<Rightarrow> Inl e | Inr s' \<Rightarrow> Inr s')" for s
      using True assms by (subst sb_loop_step) (auto simp: e split: sum.splits)
    from True assms show ?thesis
      by (subst sb_loop_step) (auto simp: 2 cdef_schedule_def split: sum.splits)
  next
    case False
    then have 2: "ApplyCdefForOneSuperBlockRow_loop helper frame_rows4x4 row4x4_start 32 True 16 s =
                  Inr s" for s
      by (intro sb_loop_return) simp
    from False assms show ?thesis
      by (subst sb_loop_step) (auto simp: 2 cdef_schedule_def split: sum.splits)
  qed
qed

lemma superblock_row_schedule_inner16:
  assumes "row4x4_start = 0 \<or> 16 \<le> row4x4_start" "row4x4_start + 16 < frame_rows4x4"
  shows "ApplyCdefForOneSuperBlockRow_loop helper frame_rows4x4 row4x4_start 16 False 0 st =
         run_helper helper (cdef_schedule frame_rows4x4 row4x4_start 16 False) st"
proof -
  have "ApplyCdefForOneSuperBlockRow_loop helper frame_rows4x4 row4x4_start 16 False 16 s = Inr s"
    for s by (rule sb_loop_exit) simp
  with assms show ?thesis
    by (subst sb_loop_step) (auto simp: cdef_schedule_def split: sum.splits)
qed

lemma superblock_row_schedule_inner32:
  assumes "row4x4_start = 0 \<or> 16 \<le> row4x4_start" "row4x4_start + 32 < frame_rows4x4"
  shows "ApplyCdefForOneSuperBlockRow_loop helper frame_rows4x4 row4x4_start 32 False 0 st =
         run_helper helper (cdef_schedule frame_rows4x4 row4x4_start 32 False) st"
proof -
  have e: "ApplyCdefForOneSuperBlockRow_loop helper frame_rows4x4 row4x4_start 32 False 32 s = Inr s"
    for s by (rule sb_loop_exit) simp
  have 2: "ApplyCdefForOneSuperBlockRow_loop helper frame_rows4x4 row4x4_start 32 False 16 s =
           (case helper (row4x4_start + 14) 2 s of
              Inl e \<Rightarrow> Inl e
            | Inr s1 \<Rightarrow> (case helper (row4x4_start + 16) 14 s1 of
                           Inl e \<Rightarrow> Inl e | Inr s2 \<Rightarrow> Inr s2))" for s
    using assms by (subst sb_loop_step) (auto simp: e add.commute split: sum.splits)
  from assms show ?thesis
    by (subst sb_loop_step) (auto simp: 2 cdef_schedule_def split: sum.splits)
qed

lemma superblock_row_schedule:
  assumes sb: "sb4x4 = 16 \<or> sb4x4 = 32"
    and start: "row4x4_start = 0 \<or> 16 \<le> row4x4_start"
    and inside: "row4x4_start < frame_rows4x4"
    and last: "is_last_row \<longleftrightarrow> frame_rows4x4 \<le> row4x4_start + sb4x4"
  shows "ApplyCdefForOneSuperBlockRow_loop helper frame_rows4x4 row4x4_start sb4x4 is_last_row 0 st =
         run_helper helper (cdef_schedule frame_rows4x4 row4x4_start sb4x4 is_last_row) st"
proof (cases is_last_row)
  case True
  with last have r: "frame_rows4x4 \<le> row4x4_start + sb4x4" by simp
  from sb show ?thesis
  proof
    assume "sb4x4 = 16"
    with True r start inside show ?thesis by (simp add: superblock_row_schedule_last16)
  next
    assume "sb4x4 = 32"
    with True r start inside show ?thesis by (simp add: superblock_row_schedule_last32)
  qed
next
  case False
  with last have r: "row4x4_start + sb4x4 < frame_rows4x4" by simp
  from sb show ?thesis
  proof
    assume "sb4x4 = 16"
    with False r start show ?thesis by (simp add: superblock_row_schedule_inner16)
  next
    assume "sb4x4 = 32"
    with False r start show ?thesis by (simp add: superblock_row_schedule_inner32)
  qed
qed

lemma upto_join:
  fixes a b c :: int
  assumes "a \<le> b" "b \<le> c + 1"
  shows "[a .. b - 1] @ [b .. c] = [a .. c]"
proof (cases "b \<le> c")
  case True
  with assms(1) show ?thesis by (simp add: upto_split1[of a b c])
next
  case False
  with assms(2) have "b = c + 1" by simp
  then show ?thesis by simp
qed

lemma upto_join3:
  fixes a b c d :: int
  assumes "a \<le> b" "b \<le> c" "c \<le> d + 1" "b' = b - 1" "c' = c - 1"
  shows "[a .. b'] @ [b .. c'] @ [c .. d] = [a .. d]"
proof -
  from assms have "[b .. c'] @ [c .. d] = [b .. d]"
    using upto_join[of b c d] by simp
  with assms show ?thesis
    using upto_join[of a b d] by simp
qed

lemma schedule_rows:
  assumes sb: "sb4x4 = 16 \<or> sb4x4 = 32"
    and start: "row4x4_start = 0 \<or> 16 \<le> row4x4_start"
    and inside: "row4x4_start < frame_rows4x4"
    and last: "is_last_row \<longleftrightarrow> frame_rows4x4 \<le> row4x4_start + sb4x4"
  shows "filtered_rows (cdef_schedule frame_rows4x4 row4x4_start sb4x4 is_last_row) =
         [(if row4x4_start = 0 then 0 else row4x4_start - 2) ..
          (if is_last_row then frame_rows4x4 else row4x4_start + sb4x4 - 2) - 1]"
proof -
  let ?s = row4x4_start
  let ?lo = "if ?s = 0 then 0 else ?s - 2"
  have pre: "filtered_rows (if ?s > 0 then [(?s - 2, 2)] else []) @ [?s .. e] = [?lo .. e]"
    if "?s \<le> e + 1" for e
  proof (cases "?s = 0")
    case True
    then show ?thesis by (simp add: filtered_rows_def)
  next
    case False
    with start have "16 \<le> ?s" by simp
    then have "filtered_rows (if ?s > 0 then [(?s - 2, 2)] else []) = [?s - 2 .. ?s - 1]"
      by (simp add: filtered_rows_def)
    with upto_join[of "?s - 2" ?s e] that False show ?thesis by simp
  qed
  have app: "filtered_rows (xs @ ys) = filtered_rows xs @ filtered_rows ys" for xs ys
    by (simp add: filtered_rows_def)
  show ?thesis
  proof (cases is_last_row)
    case True
    with last have r: "frame_rows4x4 \<le> ?s + sb4x4" by simp
    have "filtered_rows ((?s, min 16 (frame_rows4x4 - ?s)) #
             (if sb4x4 = 32 \<and> ?s + 16 < frame_rows4x4
              then [(?s + 16, min 16 (frame_rows4x4 - (?s + 16)))] else [])) =
          [?s .. frame_rows4x4 - 1]"
    proof (cases "sb4x4 = 32 \<and> ?s + 16 < frame_rows4x4")
      case True
      with r have "min 16 (frame_rows4x4 - ?s) = 16"
        and "min 16 (frame_rows4x4 - (?s + 16)) = frame_rows4x4 - (?s + 16)"
        by auto
      then have "filtered_rows [(?s, min 16 (frame_rows4x4 - ?s)),
                     (?s + 16, min 16 (frame_rows4x4 - (?s + 16)))] =
                   [?s .. ?s + 16 - 1] @ [?s + 16 .. frame_rows4x4 - 1]"
        by (simp add: filtered_rows_def)
      also have "\<dots> = [?s .. frame_rows4x4 - 1]"
        using True by (intro upto_join) simp_all
      finally show ?thesis using True by simp
    next
      case False
      with r sb inside have "min 16 (frame_rows4x4 - ?s) = frame_rows4x4 - ?s" by auto
      with False show ?thesis by (simp add: filtered_rows_def)
    qed
    with True pre[of "frame_rows4x4 - 1"] inside show ?thesis
      by (simp add: cdef_schedule_def app)
  next
    case False
    with last have r: "?s + sb4x4 < frame_rows4x4" by simp
    have "filtered_rows (if sb4x4 = 32 then [(?s, 14), (?s + 14, 2), (?s + 16, 14)]
                         else [(?s, 14)]) = [?s .. ?s + sb4x4 - 2 - 1]"
    proof (cases "sb4x4 = 32")
      case True
      then show ?thesis
        by (simp add: filtered_rows_def) (rule upto_join3; simp)
    next
      case False
      with sb show ?thesis by (simp add: filtered_rows_def)
    qed
    with False pre[of "?s + sb4x4 - 2 - 1"] sb show ?thesis
      by (auto simp: cdef_schedule_def app)
  qed
qed

lemma hd_cdef_schedule:
  "hd (cdef_schedule frame_rows4x4 row4x4_start sb4x4 is_last_row) =
     (if row4x4_start > 0 then (row4x4_start - 2, 2)
      else (row4x4_start, if is_last_row then min 16 (frame_rows4x4 - row4x4_start) else 14))"
  by (simp add: cdef_schedule_def)

text \<open>
  Claim C3. A superblock row is 16 or 32 rows of 4x4 units high and starts at row 0 or at
  a row from 16 on; \<open>is_last_row\<close> says that the frame ends in this superblock row. Then
  \<open>ApplyCdefForOneSuperBlockRow\<close> makes exactly the calls of \<open>cdef_schedule\<close>, in that
  order. Unless the superblock row is the first one, the first call filters the two rows
  above it, which the previous superblock row left over, and no later call goes back to
  them, also when a last superblock row of height 32 runs its second band. The rows
  filtered are, each once and in order, the rows from two above the superblock row (from
  row 0 in the first one) to two above its end (to the end of the frame in the last one):
  every superblock row but the last leaves its last two rows to the next one.
\<close>

theorem superblock_row_lag:
  assumes "sb4x4 = 16 \<or> sb4x4 = 32"
    and "row4x4_start = 0 \<or> 16 \<le> row4x4_start"
    and "row4x4_start < rows4x4 pf"
    and "is_last_row \<longleftrightarrow> rows4x4 pf \<le> row4x4_start + sb4x4"
  shows "ApplyCdefForOneSuperBlockRow be pf row4x4_start sb4x4 is_last_row st =
           run_helper (ApplyCdefForOneSuperBlockRowHelper be pf)
             (cdef_schedule (rows4x4 pf) row4x4_start sb4x4 is_last_row) st \<and>
         hd (cdef_schedule (rows4x4 pf) row4x4_start sb4x4 is_last_row) =
           (if row4x4_start > 0 then (row4x4_start - 2, 2)
            else (0, if is_last_row then min 16 (rows4x4 pf) else 14)) \<and>
         filtered_rows (cdef_schedule (rows4x4 pf) row4x4_start sb4x4 is_last_row) =
           [(if row4x4_start = 0 then 0 else row4x4_start - 2) ..
            (if is_last_row then rows4x4 pf else row4x4_start + sb4x4 - 2) - 1]"
proof (intro conjI)
  from assms(2) have "0 \<le> row4x4_start" by auto
  then show "ApplyCdefForOneSuperBlockRow be pf row4x4_start sb4x4 is_last_row st =
      run_helper (ApplyCdefForOneSuperBlockRowHelper be pf)
        (cdef_schedule (rows4x4 pf) row4x4_start sb4x4 is_last_row) st"
    unfolding ApplyCdefForOneSuperBlockRow_def
    using superblock_row_schedule[OF assms] by simp
next
  from assms(2) show "hd (cdef_schedule (rows4x4 pf) row4x4_start sb4x4 is_last_row) =
      (if row4x4_start > 0 then (row4x4_start - 2, 2)
       else (0, if is_last_row then min 16 (rows4x4 pf) else 14))"
    by (auto simp: hd_cdef_schedule)
next
  show "filtered_rows (cdef_schedule (rows4x4 pf) row4x4_start sb4x4 is_last_row) =
      [(if row4x4_start = 0 then 0 else row4x4_start - 2) ..
       (if is_last_row then rows4x4 pf else row4x4_start + sb4x4 - 2) - 1]"
    by (rule schedule_rows[OF assms])
qed

theorem superblock_row_lag_witness:
  "ApplyCdefForOneSuperBlockRow example_backend (example_filter\<lparr>rows4x4 := 100\<rparr>) 32 32 False
       example_state =
     run_helper (ApplyCdefForOneSuperBlockRowHelper example_backend
                   (example_filter\<lparr>rows4x4 := 100\<rparr>))
       [(30, 2), (32, 14), (46, 2), (48, 14)] example_state \<and>
   cdef_schedule 100 32 32 False = [(30, 2), (32, 14), (46, 2), (48, 14)] \<and>
   filtered_rows (cdef_schedule 100 32 32 False) = [30 .. 61] \<and>
   ApplyCdefForOneSuperBlockRow example_backend (example_filter\<lparr>rows4x4 := 100\<rparr>) 96 32 True
       example_state =
     run_helper (ApplyCdefForOneSuperBlockRowHelper example_backend
                   (example_filter\<lparr>rows4x4 := 100\<rparr>))
       [(94, 2), (96, 4)] example_state \<and>
   filtered_rows (cdef_schedule 100 96 32 True) = [94 .. 99]"
  using superblock_row_lag[of 32 32 "example_filter\<lparr>rows4x4 := 100\<rparr>" False
          example_backend example_state]
        superblock_row_lag[of 32 96 "example_filter\<lparr>rows4x4 := 100\<rparr>" True
          example_backend example_state]
  by (simp add: cdef_schedule_def)

subsection \<open>The threaded pass\<close>

text \<open>The loops of \<open>ApplyCdefThreaded\<close> in closed form.\<close>

lemma bands_from:
  "ApplyCdefThreaded_bands J actual r c (16 * k) k =
     map (\<lambda>i. if i < J then Schedule (r + 16 * i) c else RunInline (r + 16 * i) c)
       [k .. (actual + 15) div 16 - 1]"
proof (induction "nat (actual - 16 * k)" arbitrary: k rule: less_induct)
  case less
  show ?case
  proof (cases "16 * k < actual")
    case True
    then have le: "k \<le> (actual + 15) div 16 - 1" by arith
    have "nat (actual - 16 * (k + 1)) < nat (actual - 16 * k)" using True by simp
    from less[OF this] have IH: "ApplyCdefThreaded_bands J actual r c (16 * k + 16) (k + 1) =
        map (\<lambda>i. if i < J then Schedule (r + 16 * i) c else RunInline (r + 16 * i) c)
          [k + 1 .. (actual + 15) div 16 - 1]"
      by (simp add: algebra_simps)
    show ?thesis
      apply (subst ApplyCdefThreaded_bands.simps)
      apply (subst upto_rec1[OF le])
      using True by (simp add: IH kStep64x64_def)
  next
    case False
    then have "\<not> k \<le> (actual + 15) div 16 - 1" by arith
    then have "[k .. (actual + 15) div 16 - 1] = []" by simp
    with False show ?thesis
      by (subst ApplyCdefThreaded_bands.simps) simp
  qed
qed

lemma bands_split:
  fixes J N :: int
  assumes "0 \<le> J" "J \<le> N"
  shows "map (\<lambda>i. if i < J then f i else g i) [0 .. N - 1] =
         map f [0 .. J - 1] @ map g [J .. N - 1]"
proof -
  have "[0 .. N - 1] = [0 .. J - 1] @ [J .. N - 1]"
    using upto_join[of 0 J "N - 1"] assms by simp
  then have "map (\<lambda>i. if i < J then f i else g i) [0 .. N - 1] =
      map (\<lambda>i. if i < J then f i else g i) [0 .. J - 1] @
      map (\<lambda>i. if i < J then f i else g i) [J .. N - 1]"
    by simp
  also have "map (\<lambda>i. if i < J then f i else g i) [0 .. J - 1] = map f [0 .. J - 1]"
    by (rule map_cong) auto
  also have "map (\<lambda>i. if i < J then f i else g i) [J .. N - 1] = map g [J .. N - 1]"
    by (rule map_cong) auto
  finally show ?thesis .
qed

lemma jobs_for_threadpool:
  fixes V :: int
  assumes "0 \<le> V"
  shows "c_div (V * int W) (int W + 1) = V * int W div (int W + 1)"
    and "0 \<le> V * int W div (int W + 1)"
    and "V * int W div (int W + 1) \<le> V"
proof -
  from assms have nn: "0 \<le> V * int W" by simp
  show "c_div (V * int W) (int W + 1) = V * int W div (int W + 1)"
  proof (cases "V * int W = 0")
    case True
    show ?thesis unfolding True by (simp add: c_div_def)
  next
    case False
    with nn show ?thesis by (simp add: c_div_def sgn_if)
  qed
  from nn show "0 \<le> V * int W div (int W + 1)"
    by (simp add: pos_imp_zdiv_nonneg_iff)
  from assms have "V * int W \<le> V * (int W + 1)"
    by (simp add: algebra_simps)
  then have "V * int W div (int W + 1) \<le> V * (int W + 1) div (int W + 1)"
    by (intro zdiv_mono1) simp_all
  then show "V * int W div (int W + 1) \<le> V" by simp
qed

lemma window_is_plan:
  assumes "0 \<le> actual_window_height4x4"
  shows "ApplyCdefThreaded_window pf W row4x4 actual_window_height4x4
           (DivideBy16 (actual_window_height4x4 + 15)) column4x4 =
         (let N = (actual_window_height4x4 + 15) div 16;
              J = N * int W div (int W + 1) in
          NewCounter J #
          map (\<lambda>i. Schedule (row4x4 + 16 * i) column4x4) [0 .. J - 1] @
          map (\<lambda>i. RunInline (row4x4 + 16 * i) column4x4) [J .. N - 1] @
          WaitCounter #
          map (\<lambda>plane. CopyPlane (window_copy pf row4x4 column4x4 plane)) [0..<planes pf])"
proof -
  let ?N = "(actual_window_height4x4 + 15) div 16"
  let ?J = "?N * int W div (int W + 1)"
  from assms have N: "0 \<le> ?N" by simp
  have V: "DivideBy16 (actual_window_height4x4 + 15) = ?N"
    by (simp add: DivideBy16_def drop_bit_eq_div)
  have "ApplyCdefThreaded_bands ?J actual_window_height4x4 row4x4 column4x4 (16 * 0) 0 =
        map (\<lambda>i. Schedule (row4x4 + 16 * i) column4x4) [0 .. ?J - 1] @
        map (\<lambda>i. RunInline (row4x4 + 16 * i) column4x4) [?J .. ?N - 1]"
    unfolding bands_from
    by (rule bands_split) (use jobs_for_threadpool[OF N] in simp_all)
  then show ?thesis
    by (simp add: ApplyCdefThreaded_window_def V jobs_for_threadpool(1)[OF N] kPlaneY_def Let_def)
qed

lemma ceil_div_iff:
  fixes s b k :: int
  assumes "0 < s"
  shows "k * s < b \<longleftrightarrow> k < (b + s - 1) div s"
proof
  assume "k * s < b"
  then have "(k + 1) * s \<le> b + s - 1" by (simp add: algebra_simps)
  then have "(k + 1) * s div s \<le> (b + s - 1) div s"
    using assms by (intro zdiv_mono1)
  with assms show "k < (b + s - 1) div s" by simp
next
  assume *: "k < (b + s - 1) div s"
  show "k * s < b"
  proof (rule ccontr)
    assume "\<not> k * s < b"
    then have "b + s - 1 \<le> k * s + (s - 1)" by simp
    then have "(b + s - 1) div s \<le> (k * s + (s - 1)) div s"
      using assms by (intro zdiv_mono1)
    also have "(k * s + (s - 1)) div s = k"
      using assms by (simp add: div_pos_pos_trivial)
    finally show False using * by simp
  qed
qed

lemma window_starts_iff:
  assumes "0 < step"
  shows "int k * step < bound \<longleftrightarrow> k < nat ((bound + step - 1) div step)"
  using ceil_div_iff[OF assms, of "int k" bound] by (simp add: zless_nat_eq_int_zless)

lemma columns_from:
  assumes "0 < DivideBy4 (window_buffer_width pf)"
  shows "ApplyCdefThreaded_columns pf W r a V (int k * DivideBy4 (window_buffer_width pf)) =
         Some (concat (map (\<lambda>c. ApplyCdefThreaded_window pf W r a V c)
                 (map (\<lambda>k. int k * DivideBy4 (window_buffer_width pf))
                    [k ..< nat ((columns4x4 pf + DivideBy4 (window_buffer_width pf) - 1) div
                                DivideBy4 (window_buffer_width pf))])))"
proof -
  let ?s = "DivideBy4 (window_buffer_width pf)"
  let ?K = "nat ((columns4x4 pf + ?s - 1) div ?s)"
  show ?thesis
  proof (induction "?K - k" arbitrary: k rule: less_induct)
    case less
    show ?case
    proof (cases "k < ?K")
      case True
      then have lt: "int k * ?s < columns4x4 pf"
        using window_starts_iff[OF assms] by simp
      have "?K - Suc k < ?K - k" using True by simp
      from less[OF this]
      have IH: "ApplyCdefThreaded_columns pf W r a V (int k * ?s + ?s) =
          Some (concat (map (\<lambda>c. ApplyCdefThreaded_window pf W r a V c)
                  (map (\<lambda>k. int k * ?s) [Suc k ..< ?K])))"
        by (simp add: algebra_simps)
      show ?thesis
        apply (subst ApplyCdefThreaded_columns.simps)
        apply (subst upt_conv_Cons[OF True])
        using lt by (simp add: IH)
    next
      case False
      then have "\<not> int k * ?s < columns4x4 pf"
        using window_starts_iff[OF assms] by simp
      with False show ?thesis
        by (subst ApplyCdefThreaded_columns.simps) simp
    qed
  qed
qed

lemma rows_from:
  assumes "0 < DivideBy4 (window_buffer_height pf)"
    and "0 < DivideBy4 (window_buffer_width pf)"
  shows "ApplyCdefThreaded_rows pf W (int k * DivideBy4 (window_buffer_height pf)) =
         Some (concat (map (\<lambda>r. concat (map (\<lambda>c. ApplyCdefThreaded_window pf W r
                   (min (DivideBy4 (window_buffer_height pf)) (rows4x4 pf - r))
                   (DivideBy16 (min (DivideBy4 (window_buffer_height pf)) (rows4x4 pf - r) + 15))
                   c)
                 (window_starts (columns4x4 pf) (DivideBy4 (window_buffer_width pf)))))
                 (map (\<lambda>k. int k * DivideBy4 (window_buffer_height pf))
                    [k ..< nat ((rows4x4 pf + DivideBy4 (window_buffer_height pf) - 1) div
                                DivideBy4 (window_buffer_height pf))])))"
proof -
  let ?s = "DivideBy4 (window_buffer_height pf)"
  let ?K = "nat ((rows4x4 pf + ?s - 1) div ?s)"
  let ?row = "\<lambda>r. concat (map (\<lambda>c. ApplyCdefThreaded_window pf W r
                   (min ?s (rows4x4 pf - r)) (DivideBy16 (min ?s (rows4x4 pf - r) + 15)) c)
                 (window_starts (columns4x4 pf) (DivideBy4 (window_buffer_width pf))))"
  have cols: "ApplyCdefThreaded_columns pf W r a V 0 =
      Some (concat (map (\<lambda>c. ApplyCdefThreaded_window pf W r a V c)
              (window_starts (columns4x4 pf) (DivideBy4 (window_buffer_width pf)))))" for r a V
    using columns_from[OF assms(2), of W r a V 0] by (simp add: window_starts_def)
  show ?thesis
  proof (induction "?K - k" arbitrary: k rule: less_induct)
    case less
    show ?case
    proof (cases "k < ?K")
      case True
      then have lt: "int k * ?s < rows4x4 pf"
        using window_starts_iff[OF assms(1)] by simp
      have "?K - Suc k < ?K - k" using True by simp
      from less[OF this]
      have IH: "ApplyCdefThreaded_rows pf W (int k * ?s + ?s) =
          Some (concat (map ?row (map (\<lambda>k. int k * ?s) [Suc k ..< ?K])))"
        by (simp add: algebra_simps)
      show ?thesis
        apply (subst ApplyCdefThreaded_rows.simps)
        apply (subst upt_conv_Cons[OF True])
        using lt by (simp add: IH cols Let_def)
    next
      case False
      then have "\<not> int k * ?s < rows4x4 pf"
        using window_starts_iff[OF assms(1)] by simp
      with False show ?thesis
        by (subst ApplyCdefThreaded_rows.simps) simp
    qed
  qed
qed

lemma concat_product:
  "concat (map f (List.product xs ys)) = concat (map (\<lambda>x. concat (map (\<lambda>y. f (x, y)) ys)) xs)"
  by (induction xs) (simp_all add: comp_def)

lemma window_starts_less:
  assumes "0 < step" "r \<in> set (window_starts bound step)"
  shows "r < bound"
  using assms window_starts_iff[OF assms(1)] by (auto simp: window_starts_def)

lemma and_63: "(x::int) AND 63 = x mod 64"
proof -
  have "(63::int) = mask 6" by (simp add: mask_eq_exp_minus_1)
  then have "x AND 63 = take_bit 6 x" by (simp only: take_bit_eq_mask)
  then show ?thesis by (simp add: take_bit_eq_mod)
qed

lemma ApplyCdefThreaded_plan:
  assumes "thread_pool pf = Some W"
    and "window_buffer_height pf AND 63 = 0"
    and "0 < window_buffer_height pf"
    and "4 \<le> window_buffer_width pf"
  shows "ApplyCdefThreaded pf = Some (Inr (threaded_plan pf W))"
proof -
  let ?h = "DivideBy4 (window_buffer_height pf)"
  let ?w = "DivideBy4 (window_buffer_width pf)"
  have h4: "?h = window_buffer_height pf div 4" and w4: "?w = window_buffer_width pf div 4"
    by (simp_all add: DivideBy4_def drop_bit_eq_div)
  have "window_buffer_height pf mod 64 = 0"
    using assms(2) by (simp add: and_63)
  with assms(3) have h: "0 < ?h" unfolding h4 by arith
  from assms(4) have w: "0 < ?w" unfolding w4 by arith
  have row: "concat (map (\<lambda>c. ApplyCdefThreaded_window pf W r (min ?h (rows4x4 pf - r))
                   (DivideBy16 (min ?h (rows4x4 pf - r) + 15)) c)
                 (window_starts (columns4x4 pf) ?w)) =
             concat (map (\<lambda>c. window_plan pf W (r, c)) (window_starts (columns4x4 pf) ?w))"
    if "r \<in> set (window_starts (rows4x4 pf) ?h)" for r
  proof -
    from that h have "r < rows4x4 pf" by (rule window_starts_less[rotated])
    with h have "0 \<le> min ?h (rows4x4 pf - r)" by simp
    from window_is_plan[OF this] show ?thesis
      by (simp add: window_plan_def window_bands_def h4)
  qed
  have "ApplyCdefThreaded_rows pf W 0 =
      Some (concat (map (\<lambda>r. concat (map (\<lambda>c. ApplyCdefThreaded_window pf W r
                (min ?h (rows4x4 pf - r)) (DivideBy16 (min ?h (rows4x4 pf - r) + 15)) c)
              (window_starts (columns4x4 pf) ?w))) (window_starts (rows4x4 pf) ?h)))"
    using rows_from[OF h w, of W 0] by (simp add: window_starts_def)
  also have "map (\<lambda>r. concat (map (\<lambda>c. ApplyCdefThreaded_window pf W r
                (min ?h (rows4x4 pf - r)) (DivideBy16 (min ?h (rows4x4 pf - r) + 15)) c)
              (window_starts (columns4x4 pf) ?w))) (window_starts (rows4x4 pf) ?h) =
      map (\<lambda>r. concat (map (\<lambda>c. window_plan pf W (r, c))
              (window_starts (columns4x4 pf) ?w))) (window_starts (rows4x4 pf) ?h)"
    by (rule map_cong[OF refl]) (rule row)
  finally have "ApplyCdefThreaded_rows pf W 0 =
      Some (concat (map (\<lambda>r. concat (map (\<lambda>c. window_plan pf W (r, c))
              (window_starts (columns4x4 pf) ?w))) (window_starts (rows4x4 pf) ?h)))" .
  then show ?thesis
    using assms(1,2)
    by (simp add: ApplyCdefThreaded_def threaded_plan_def windows_def concat_product h4 w4)
qed

text \<open>The invariant holds at the start and after every step.\<close>

lemma busy_nonneg: "0 \<le> busy ws"
  by (simp add: busy_def)

lemma busy_0_iff: "busy ws = 0 \<longleftrightarrow> list_all (\<lambda>w. w = Idle) ws"
  by (simp add: busy_def filter_empty_conv list_all_iff)

lemma busy_Cons: "busy (a # ws) = (if a = Idle then 0 else 1) + busy ws"
  by (simp add: busy_def)

lemma busy_update:
  "i < length ws \<Longrightarrow>
   busy (ws[i := w]) = busy ws - (if ws ! i = Idle then 0 else 1) + (if w = Idle then 0 else 1)"
proof (induction ws arbitrary: i)
  case Nil
  then show ?case by simp
next
  case (Cons a ws)
  show ?case
  proof (cases i)
    case 0
    then show ?thesis by (simp add: busy_Cons)
  next
    case (Suc n)
    with Cons.prems have "n < length ws" by simp
    from Cons.IH[OF this] Suc show ?thesis by (simp add: busy_Cons)
  qed
qed

lemma filtering_update:
  "i < length ws \<Longrightarrow>
   mset (filtering (ws[i := w])) + mset (held (ws ! i)) = mset (filtering ws) + mset (held w)"
proof (induction ws arbitrary: i)
  case Nil
  then show ?case by simp
next
  case (Cons a ws)
  show ?case
  proof (cases i)
    case 0
    then show ?thesis by (simp add: filtering_def)
  next
    case (Suc n)
    with Cons.prems have "n < length ws" by simp
    from Cons.IH[OF this] Suc show ?thesis by (simp add: filtering_def ac_simps)
  qed
qed

lemma filtering_idle: "list_all (\<lambda>w. w = Idle) ws \<Longrightarrow> filtering ws = []"
  by (induction ws) (simp_all add: filtering_def)

lemma caller_step_cases:
  assumes "caller_step c = Some c'"
  obtains a p where "caller c = a # p" "caller_act a (c\<lparr>caller := p\<rparr>) = Some c'"
  using assms by (auto simp: caller_step_def split: list.splits)

lemma worker_step_cases:
  assumes "worker_step i c = Some c'"
  obtains (take) j q where "i < length (workers c)" "workers c ! i = Idle" "queued c = j # q"
      "c' = c\<lparr>queued := q, workers := (workers c)[i := Filtering j]\<rparr>"
  | (band) j where "i < length (workers c)" "workers c ! i = Filtering j"
      "c' = c\<lparr>workers := (workers c)[i := Decrementing j], completed := completed c @ [j]\<rparr>"
  | (decrement) j where "i < length (workers c)" "workers c ! i = Decrementing j"
      "c' = c\<lparr>workers := (workers c)[i := Idle], counter := counter c - 1\<rparr>"
  using assms by (auto simp: worker_step_def split: if_splits worker.splits list.splits)

lemma busy_idle:
  assumes "busy ws = 0" "i < length ws"
  shows "ws ! i = Idle"
  using assms by (simp add: busy_0_iff list_all_length)

lemma caller_step_counter_inv:
  assumes inv: "counter_inv c" and step: "caller_step c = Some c'"
  shows "counter_inv c'"
proof -
  from step obtain a p where a: "caller c = a # p" and act: "caller_act a (c\<lparr>caller := p\<rparr>) = Some c'"
    by (rule caller_step_cases)
  from inv obtain ph where bal: "balanced ph (a # p)"
    and rel: "case ph of
                Some k \<Rightarrow> counter c = k + int (length (queued c)) + busy (workers c)
              | None \<Rightarrow> queued c = [] \<and> busy (workers c) = 0"
    unfolding counter_inv_def a by auto
  show ?thesis
  proof (cases a)
    case (NewCounter n)
    with bal have ph: "ph = None" and "balanced (Some n) p" by simp_all
    moreover from act NewCounter have "c' = c\<lparr>caller := p, counter := n\<rparr>" by simp
    ultimately show ?thesis
      using rel unfolding counter_inv_def by (intro exI[of _ "Some n"]) simp
  next
    case (Schedule r col)
    with bal obtain k where ph: "ph = Some k" and "balanced (Some (k - 1)) p"
      by (cases ph) simp_all
    moreover from act Schedule
    have "c' = c\<lparr>caller := p, queued := queued c @ [(r, col)],
                  submitted := submitted c @ [(r, col)]\<rparr>"
      by simp
    ultimately show ?thesis
      using rel unfolding counter_inv_def by (intro exI[of _ "Some (k - 1)"]) simp
  next
    case (RunInline r col)
    with bal have "balanced ph p" by simp
    moreover from act RunInline have "c' = c\<lparr>caller := p\<rparr>" by simp
    ultimately show ?thesis
      using rel unfolding counter_inv_def
      by (intro exI[of _ ph]) (auto split: option.splits)
  next
    case WaitCounter
    with bal have ph: "ph = Some 0" and b: "balanced None p" by simp_all
    from act WaitCounter have 0: "counter c = 0" and c': "c' = c\<lparr>caller := p\<rparr>"
      by (simp_all split: if_splits)
    from rel ph 0 have "int (length (queued c)) + busy (workers c) = 0" by simp
    with busy_nonneg[of "workers c"]
    have "int (length (queued c)) = 0" and "busy (workers c) = 0" by arith+
    then have "queued c = []" "busy (workers c) = 0" by simp_all
    with b c' show ?thesis
      unfolding counter_inv_def by (intro exI[of _ None]) simp
  next
    case (CopyPlane pc)
    with bal have ph: "ph = None" and "balanced None p" by simp_all
    moreover from act CopyPlane have "c' = c\<lparr>caller := p\<rparr>" by simp
    ultimately show ?thesis
      using rel unfolding counter_inv_def by (intro exI[of _ None]) simp
  qed
qed

lemma worker_step_counter_inv:
  assumes inv: "counter_inv c" and step: "worker_step i c = Some c'"
  shows "counter_inv c'"
proof -
  from inv obtain ph where bal: "balanced ph (caller c)"
    and rel: "case ph of
                Some k \<Rightarrow> counter c = k + int (length (queued c)) + busy (workers c)
              | None \<Rightarrow> queued c = [] \<and> busy (workers c) = 0"
    unfolding counter_inv_def by auto
  show ?thesis
  proof (cases ph)
    case None
    with rel have q: "queued c = []" and b: "busy (workers c) = 0" by simp_all
    from step show ?thesis
    proof (cases rule: worker_step_cases)
      case (take j q)
      with q show ?thesis by simp
    next
      case (band j)
      with busy_idle[OF b band(1)] show ?thesis by simp
    next
      case (decrement j)
      with busy_idle[OF b decrement(1)] show ?thesis by simp
    qed
  next
    case (Some k)
    with rel have r: "counter c = k + int (length (queued c)) + busy (workers c)" by simp
    from step show ?thesis
    proof (cases rule: worker_step_cases)
      case (take j q)
      with r bal Some show ?thesis
        unfolding counter_inv_def
        by (intro exI[of _ "Some k"]) (simp add: busy_update)
    next
      case (band j)
      with r bal Some show ?thesis
        unfolding counter_inv_def
        by (intro exI[of _ "Some k"]) (simp add: busy_update)
    next
      case (decrement j)
      with r bal Some show ?thesis
        unfolding counter_inv_def
        by (intro exI[of _ "Some k"]) (simp add: busy_update)
    qed
  qed
qed

lemma caller_step_jobs_inv:
  assumes inv: "jobs_inv c" and step: "caller_step c = Some c'"
  shows "jobs_inv c'"
proof -
  from step obtain a p where a: "caller c = a # p" and act: "caller_act a (c\<lparr>caller := p\<rparr>) = Some c'"
    by (rule caller_step_cases)
  from inv act show ?thesis
    by (cases a) (auto simp: jobs_inv_def split: if_splits)
qed

lemma worker_step_jobs_inv:
  assumes inv: "jobs_inv c" and step: "worker_step i c = Some c'"
  shows "jobs_inv c'"
  using step
proof (cases rule: worker_step_cases)
  case (take j q)
  from filtering_update[OF take(1), of "Filtering j"] take(2)
  have "mset (filtering ((workers c)[i := Filtering j])) = mset (filtering (workers c)) + {#j#}"
    by simp
  with inv take show ?thesis by (simp add: jobs_inv_def)
next
  case (band j)
  from filtering_update[OF band(1), of "Decrementing j"] band(2)
  have "mset (filtering ((workers c)[i := Decrementing j])) + {#j#} =
        mset (filtering (workers c))"
    by simp
  with inv band show ?thesis by (simp add: jobs_inv_def)
next
  case (decrement j)
  from filtering_update[OF decrement(1), of Idle] decrement(2)
  have "mset (filtering ((workers c)[i := Idle])) = mset (filtering (workers c))"
    by simp
  with inv decrement show ?thesis by (simp add: jobs_inv_def)
qed

lemma sched_run_inv:
  assumes "counter_inv c \<and> jobs_inv c" "sched_run cs c = Some c'"
  shows "counter_inv c' \<and> jobs_inv c'"
  using assms
proof (induction cs arbitrary: c)
  case Nil
  then show ?case by simp
next
  case (Cons x cs)
  from Cons.prems(2) obtain c1 where 1: "sched_step x c = Some c1" and 2: "sched_run cs c1 = Some c'"
    by (auto split: option.splits)
  from 1 Cons.prems(1) have "counter_inv c1 \<and> jobs_inv c1"
    by (cases x)
       (auto intro: caller_step_counter_inv caller_step_jobs_inv worker_step_counter_inv
          worker_step_jobs_inv)
  from Cons.IH[OF this 2] show ?case .
qed

lemma initial_conf_inv:
  assumes "balanced None program"
  shows "counter_inv (initial_conf W program) \<and> jobs_inv (initial_conf W program)"
proof -
  have "busy (replicate W Idle) = 0" by (simp add: busy_def)
  moreover have "filtering (replicate W Idle) = []"
    by (rule filtering_idle) (simp add: list_all_iff)
  ultimately show ?thesis
    using assms unfolding counter_inv_def jobs_inv_def initial_conf_def
    by (auto intro: exI[of _ None])
qed

lemma copy_after_jobs:
  assumes "counter_inv c \<and> jobs_inv c" "caller c = CopyPlane pc # rest"
  shows "queued c = [] \<and> list_all (\<lambda>w. w = Idle) (workers c) \<and>
         mset (completed c) = mset (submitted c)"
proof -
  from assms obtain ph where "balanced ph (CopyPlane pc # rest)"
    and rel: "case ph of
                Some k \<Rightarrow> counter c = k + int (length (queued c)) + busy (workers c)
              | None \<Rightarrow> queued c = [] \<and> busy (workers c) = 0"
    unfolding counter_inv_def by auto
  then have "ph = None" by simp
  with rel have q: "queued c = []" and idle: "list_all (\<lambda>w. w = Idle) (workers c)"
    by (simp_all add: busy_0_iff)
  with assms(1) filtering_idle[OF idle] show ?thesis by (simp add: jobs_inv_def)
qed

text \<open>The program of \<open>ApplyCdefThreaded\<close> is balanced.\<close>

lemma balanced_schedules:
  "balanced (Some k) (map (\<lambda>i. Schedule (f i) col) xs @ p) =
   balanced (Some (k - int (length xs))) p"
  by (induction xs arbitrary: k) (simp_all add: algebra_simps)

lemma balanced_inlines:
  "balanced ph (map (\<lambda>i. RunInline (f i) col) xs @ p) = balanced ph p"
  by (induction xs) simp_all

lemma balanced_copies:
  "balanced None (map (\<lambda>x. CopyPlane (f x)) xs @ p) = balanced None p"
  by (induction xs) simp_all

lemma balanced_window:
  assumes "0 \<le> window_bands pf (fst w)"
  shows "balanced None (window_plan pf W w @ p) = balanced None p"
proof -
  obtain r c where w: "w = (r, c)" by (cases w)
  let ?J = "window_bands pf r * int W div (int W + 1)"
  from assms w have "0 \<le> ?J" by (simp add: jobs_for_threadpool(2))
  then have "int (length [0 .. ?J - 1]) = ?J" by simp
  then show ?thesis
    unfolding w window_plan_def Let_def prod.case
    by (simp add: balanced_schedules balanced_inlines balanced_copies)
qed

lemma balanced_windows:
  assumes "list_all (\<lambda>w. 0 \<le> window_bands pf (fst w)) ws"
  shows "balanced None (concat (map (window_plan pf W) ws))"
  using assms by (induction ws) (simp_all add: balanced_window)

lemma windows_bands_nonneg:
  assumes "0 < window_buffer_height pf div 4" "w \<in> set (windows pf)"
  shows "0 \<le> window_bands pf (fst w)" "0 < window_bands pf (fst w)"
proof -
  from assms(2) have "fst w \<in> set (window_starts (rows4x4 pf) (window_buffer_height pf div 4))"
    by (auto simp: windows_def)
  with assms(1) have "fst w < rows4x4 pf" by (rule window_starts_less)
  with assms(1) have "1 \<le> min (window_buffer_height pf div 4) (rows4x4 pf - fst w)" by simp
  then show "0 < window_bands pf (fst w)" unfolding window_bands_def by arith
  then show "0 \<le> window_bands pf (fst w)" by simp
qed

lemma filter_Schedule:
  "filter is_Schedule (map (\<lambda>i. Schedule (f i) col) xs) = map (\<lambda>i. Schedule (f i) col) xs"
  "filter is_Schedule (map (\<lambda>i. RunInline (f i) col) xs) = []"
  "filter is_Schedule (map (\<lambda>x. CopyPlane (g x)) ys) = []"
  "filter is_RunInline (map (\<lambda>i. Schedule (f i) col) xs) = []"
  "filter is_RunInline (map (\<lambda>i. RunInline (f i) col) xs) = map (\<lambda>i. RunInline (f i) col) xs"
  "filter is_RunInline (map (\<lambda>x. CopyPlane (g x)) ys) = []"
  by (induction xs) (simp_all add: filter_map comp_def)

lemma window_plan_counts:
  assumes "0 \<le> window_bands pf (fst w)"
  shows "int (length (filter is_Schedule (window_plan pf W w))) =
           window_bands pf (fst w) * int W div (int W + 1)"
    and "int (length (filter is_RunInline (window_plan pf W w))) =
           window_bands pf (fst w) - window_bands pf (fst w) * int W div (int W + 1)"
proof -
  obtain r c where w: "w = (r, c)" by (cases w)
  let ?N = "window_bands pf r"
  let ?J = "?N * int W div (int W + 1)"
  from assms w have J: "0 \<le> ?J" "?J \<le> ?N" by (simp_all add: jobs_for_threadpool)
  then have 1: "int (length [0 .. ?J - 1]) = ?J" and 2: "int (length [?J .. ?N - 1]) = ?N - ?J"
    by simp_all
  show "int (length (filter is_Schedule (window_plan pf W w))) =
           window_bands pf (fst w) * int W div (int W + 1)"
    unfolding w window_plan_def Let_def prod.case using 1
    by (simp add: filter_Schedule)
  show "int (length (filter is_RunInline (window_plan pf W w))) =
           window_bands pf (fst w) - window_bands pf (fst w) * int W div (int W + 1)"
    unfolding w window_plan_def Let_def prod.case using 2
    by (simp add: filter_Schedule)
qed

text \<open>
  Claim C9. Let the filter have a pool of \<open>W\<close> threads and a window buffer whose height is
  a positive multiple of 64 and whose width is at least 4. Then \<open>ApplyCdefThreaded\<close>
  returns, and what it does is \<open>threaded_plan\<close>: window after window, it sets the counter,
  submits bands, runs bands itself, waits at the counter and then copies the planes. In a
  window of \<open>N\<close> bands exactly \<open>N * W div (W + 1)\<close> bands are submitted to the pool and
  the other bands are run by the calling thread. However the steps of the calling thread
  and of the workers interleave, whenever the calling thread is about to copy a plane no
  job is queued, every worker is idle, and the jobs whose filtering is finished are the
  jobs submitted so far.
\<close>

theorem threaded_window_split:
  assumes "thread_pool pf = Some W"
    and "window_buffer_height pf AND 63 = 0"
    and "0 < window_buffer_height pf"
    and "4 \<le> window_buffer_width pf"
  shows "ApplyCdefThreaded pf = Some (Inr (threaded_plan pf W)) \<and>
         list_all (\<lambda>w. int (length (filter is_Schedule (window_plan pf W w))) =
                          window_bands pf (fst w) * int W div (int W + 1) \<and>
                        int (length (filter is_RunInline (window_plan pf W w))) =
                          window_bands pf (fst w) -
                          window_bands pf (fst w) * int W div (int W + 1))
           (windows pf) \<and>
         (\<forall>cs c pc rest.
            sched_run cs (initial_conf W (threaded_plan pf W)) = Some c \<longrightarrow>
            caller c = CopyPlane pc # rest \<longrightarrow>
            queued c = [] \<and> list_all (\<lambda>w. w = Idle) (workers c) \<and>
            mset (completed c) = mset (submitted c))"
proof (intro conjI allI impI)
  show "ApplyCdefThreaded pf = Some (Inr (threaded_plan pf W))"
    by (rule ApplyCdefThreaded_plan[OF assms])
next
  have "window_buffer_height pf mod 64 = 0"
    using assms(2) by (simp add: and_63)
  with assms(3) have h: "0 < window_buffer_height pf div 4" by arith
  note nn = windows_bands_nonneg(1)[OF h]
  show "list_all (\<lambda>w. int (length (filter is_Schedule (window_plan pf W w))) =
                          window_bands pf (fst w) * int W div (int W + 1) \<and>
                        int (length (filter is_RunInline (window_plan pf W w))) =
                          window_bands pf (fst w) -
                          window_bands pf (fst w) * int W div (int W + 1))
           (windows pf)"
    unfolding list_all_iff using nn by (auto simp: window_plan_counts)
  have "balanced None (threaded_plan pf W)"
    unfolding threaded_plan_def
    by (rule balanced_windows) (use nn in \<open>simp add: list_all_iff\<close>)
  then have init: "counter_inv (initial_conf W (threaded_plan pf W)) \<and>
                   jobs_inv (initial_conf W (threaded_plan pf W))"
    by (rule initial_conf_inv)
  fix cs c pc rest
  assume run: "sched_run cs (initial_conf W (threaded_plan pf W)) = Some c"
    and copy: "caller c = CopyPlane pc # rest"
  from init run have "counter_inv c \<and> jobs_inv c" by (rule sched_run_inv)
  from copy_after_jobs[OF this copy]
  show "queued c = []" and "list_all (\<lambda>w. w = Idle) (workers c)"
    and "mset (completed c) = mset (submitted c)"
    by simp_all
qed

text \<open>
  The example: two windows of three bands and of one band. In the first window two bands
  are submitted and one is run by the calling thread, which cannot pass the counter before
  the workers have finished; in the second window nothing is submitted.
\<close>

theorem threaded_window_split_witness:
  "ApplyCdefThreaded threaded_filter =
     Some (Inr
       [NewCounter 2, Schedule 0 0, Schedule 16 0, RunInline 32 0, WaitCounter,
        CopyPlane \<lparr>pc_src = 0, pc_src_stride = 64, pc_width = 64, pc_height = 192,
                    pc_dst = 10000, pc_dst_stride = 64\<rparr>,
        CopyPlane \<lparr>pc_src = 12288, pc_src_stride = 64, pc_width = 32, pc_height = 192,
                    pc_dst = 12000, pc_dst_stride = 64\<rparr>,
        CopyPlane \<lparr>pc_src = 24576, pc_src_stride = 64, pc_width = 32, pc_height = 192,
                    pc_dst = 14000, pc_dst_stride = 64\<rparr>,
        NewCounter 0, RunInline 48 0, WaitCounter,
        CopyPlane \<lparr>pc_src = 0, pc_src_stride = 64, pc_width = 64, pc_height = 32,
                    pc_dst = 22288, pc_dst_stride = 64\<rparr>,
        CopyPlane \<lparr>pc_src = 12288, pc_src_stride = 64, pc_width = 32, pc_height = 32,
                    pc_dst = 24288, pc_dst_stride = 64\<rparr>,
        CopyPlane \<lparr>pc_src = 24576, pc_src_stride = 64, pc_width = 32, pc_height = 32,
                    pc_dst = 26288, pc_dst_stride = 64\<rparr>]) \<and>
   windows threaded_filter = [(0, 0), (48, 0)] \<and>
   window_bands threaded_filter 0 = 3 \<and> window_bands threaded_filter 48 = 1 \<and>
   sched_run [Caller, Caller, Caller, Caller, Caller]
     (initial_conf 2 (threaded_plan threaded_filter 2)) = None \<and>
   (\<exists>c rest.
      sched_run [Caller, Caller, Caller, Caller, Worker 0, Worker 1, Worker 0, Worker 0,
                 Worker 1, Worker 1, Caller]
        (initial_conf 2 (threaded_plan threaded_filter 2)) = Some c \<and>
      caller c = CopyPlane \<lparr>pc_src = 0, pc_src_stride = 64, pc_width = 64, pc_height = 192,
                             pc_dst = 10000, pc_dst_stride = 64\<rparr> # rest \<and>
      submitted c = [(0, 0), (16, 0)] \<and>
      queued c = [] \<and> list_all (\<lambda>w. w = Idle) (workers c) \<and>
      mset (completed c) = mset (submitted c))"
proof -
  have tf: "thread_pool threaded_filter = Some 2"
    "window_buffer_height threaded_filter AND 63 = 0"
    "0 < window_buffer_height threaded_filter"
    "4 \<le> window_buffer_width threaded_filter"
    by (simp_all add: threaded_filter_def example_filter_def)
  note T = threaded_window_split[OF tf]
  have w: "windows threaded_filter = [(0, 0), (48, 0)]"
    by (simp add: windows_def window_starts_def threaded_filter_def example_filter_def
        upt_conv_Cons)
  have b: "window_bands threaded_filter 0 = 3" "window_bands threaded_filter 48 = 1"
    by (simp_all add: window_bands_def threaded_filter_def example_filter_def)
  have c: "window_copy threaded_filter 0 0 0 =
             \<lparr>pc_src = 0, pc_src_stride = 64, pc_width = 64, pc_height = 192,
              pc_dst = 10000, pc_dst_stride = 64\<rparr>"
    "window_copy threaded_filter 0 0 1 =
             \<lparr>pc_src = 12288, pc_src_stride = 64, pc_width = 32, pc_height = 192,
              pc_dst = 12000, pc_dst_stride = 64\<rparr>"
    "window_copy threaded_filter 0 0 2 =
             \<lparr>pc_src = 24576, pc_src_stride = 64, pc_width = 32, pc_height = 192,
              pc_dst = 14000, pc_dst_stride = 64\<rparr>"
    "window_copy threaded_filter 48 0 0 =
             \<lparr>pc_src = 0, pc_src_stride = 64, pc_width = 64, pc_height = 32,
              pc_dst = 22288, pc_dst_stride = 64\<rparr>"
    "window_copy threaded_filter 48 0 1 =
             \<lparr>pc_src = 12288, pc_src_stride = 64, pc_width = 32, pc_height = 32,
              pc_dst = 24288, pc_dst_stride = 64\<rparr>"
    "window_copy threaded_filter 48 0 2 =
             \<lparr>pc_src = 24576, pc_src_stride = 64, pc_width = 32, pc_height = 32,
              pc_dst = 26288, pc_dst_stride = 64\<rparr>"
    by (simp_all add: window_copy_def threaded_filter_def example_filter_def Let_def
        DivideBy4_def MultiplyBy4_def drop_bit_eq_div)
  have p3: "planes threaded_filter = 3"
    by (simp add: threaded_filter_def example_filter_def)
  have plan: "threaded_plan threaded_filter 2 =
       [NewCounter 2, Schedule 0 0, Schedule 16 0, RunInline 32 0, WaitCounter,
        CopyPlane (window_copy threaded_filter 0 0 0),
        CopyPlane (window_copy threaded_filter 0 0 1),
        CopyPlane (window_copy threaded_filter 0 0 2),
        NewCounter 0, RunInline 48 0, WaitCounter,
        CopyPlane (window_copy threaded_filter 48 0 0),
        CopyPlane (window_copy threaded_filter 48 0 1),
        CopyPlane (window_copy threaded_filter 48 0 2)]"
    by (simp add: threaded_plan_def w window_plan_def b p3 upt_3 upto_rec1)
  let ?cs = "[Caller, Caller, Caller, Caller, Worker 0, Worker 1, Worker 0, Worker 0,
              Worker 1, Worker 1, Caller]"
  let ?rest = "[CopyPlane (window_copy threaded_filter 0 0 1),
        CopyPlane (window_copy threaded_filter 0 0 2),
        NewCounter 0, RunInline 48 0, WaitCounter,
        CopyPlane (window_copy threaded_filter 48 0 0),
        CopyPlane (window_copy threaded_filter 48 0 1),
        CopyPlane (window_copy threaded_filter 48 0 2)]"
  let ?c = "\<lparr> caller = CopyPlane (window_copy threaded_filter 0 0 0) # ?rest,
             queued = [], workers = [Idle, Idle], counter = 0,
             submitted = [(0, 0), (16, 0)], completed = [(0, 0), (16, 0)] \<rparr>"
  have run: "sched_run ?cs (initial_conf 2 (threaded_plan threaded_filter 2)) = Some ?c"
    unfolding plan
    by (simp add: initial_conf_def caller_step_def worker_step_def numeral_2_eq_2)
  have blocked: "sched_run [Caller, Caller, Caller, Caller, Caller]
     (initial_conf 2 (threaded_plan threaded_filter 2)) = None"
    unfolding plan by (simp add: initial_conf_def caller_step_def)
  from T have safe: "queued ?c = [] \<and> list_all (\<lambda>w. w = Idle) (workers ?c) \<and>
      mset (completed ?c) = mset (submitted ?c)"
    using run by (elim conjE allE[of _ ?cs] allE[of _ ?c]) simp
  from T have 1: "ApplyCdefThreaded threaded_filter = Some (Inr (threaded_plan threaded_filter 2))"
    by simp
  have ex: "\<exists>c rest.
      sched_run ?cs (initial_conf 2 (threaded_plan threaded_filter 2)) = Some c \<and>
      caller c = CopyPlane (window_copy threaded_filter 0 0 0) # rest \<and>
      submitted c = [(0, 0), (16, 0)] \<and>
      queued c = [] \<and> list_all (\<lambda>w. w = Idle) (workers c) \<and>
      mset (completed c) = mset (submitted c)"
  proof (intro exI conjI)
    show "sched_run ?cs (initial_conf 2 (threaded_plan threaded_filter 2)) = Some ?c"
      by (rule run)
    show "caller ?c = CopyPlane (window_copy threaded_filter 0 0 0) # ?rest" by simp
    show "submitted ?c = [(0, 0), (16, 0)]" by simp
    from safe show "queued ?c = []" by (elim conjE)
    from safe show "list_all (\<lambda>w. w = Idle) (workers ?c)" by (elim conjE)
    from safe show "mset (completed ?c) = mset (submitted ?c)" by (elim conjE)
  qed
  show ?thesis
    by (intro conjI)
       (rule 1[unfolded plan c] w b blocked ex[unfolded c])+
qed

end
